theory Spec2Isabelle
  imports Complex_Main
begin

section \<open>The request pipeline of the Donetick client\<close>

text \<open>
  A shallow embedding of \<^verbatim>\<open>src/donetick_mcp/client.py\<close>: the token bucket
  \<^verbatim>\<open>TokenBucket\<close>, the retrying request executor \<^verbatim>\<open>DonetickClient._request\<close>
  and the two readers \<^verbatim>\<open>list_chores\<close> and \<^verbatim>\<open>get_chore\<close> built on it.

  Python's unbounded integers are \<open>int\<close>. A finite Python float is a real: the
  rounding of a float operation is not modelled, but the places where a float operation
  of the code raises or yields an infinity or a NaN are branches of the model.
  Everything the code does beyond returning a value is explicit: the wall clock, the
  sleeps, the lock of the bucket, the transport calls and the random draws are fields of
  one state, the \<open>world\<close>, that every operation takes and returns. An exception is a
  value of the type \<open>error\<close>; a call that never returns is the value \<open>None\<close> of the
  bucket's loop and the value \<open>Hang\<close> of a request.
\<close>

subsection \<open>Data\<close>

datatype error =
    ZeroDivisionError
  | ValueError
  | TypeError
  | ValidationError
  | JSONDecodeError
  | OverflowError
  | TimeoutException
  | TransportError
  | HTTPStatusError int string
  | Failed int

text \<open>
  \<open>HTTPStatusError s t\<close> carries the response's status code and body text (the code
  reads them back as \<^verbatim>\<open>e.response.status_code\<close> and \<^verbatim>\<open>e.response.text\<close>);
  \<open>Failed n\<close> is the final \<^verbatim>\<open>Exception(f"Failed after {max_retries} retries")\<close>;
  \<open>TransportError\<close> stands for any exception of \<^verbatim>\<open>client.request\<close> that is not a
  \<^verbatim>\<open>httpx.TimeoutException\<close>.
\<close>

datatype json =
    JNull
  | JBool bool
  | JInt int
  | JFloat real
  | JStr string
  | JArr "json list"
  | JObj "(string \<times> json) list"

record response =
  status_code :: int
  headers :: "string \<Rightarrow> string option"
  body_text :: string
  body_json :: "json option"

text \<open>
  \<open>headers r k\<close> is \<^verbatim>\<open>response.headers.get(k)\<close>, \<open>body_text r\<close> is
  \<^verbatim>\<open>response.text\<close> and \<open>body_json r\<close> is the value of
  \<^verbatim>\<open>response.json()\<close>, \<open>None\<close> where the body is not JSON and the call raises.
\<close>

datatype outcome = TimedOut | Broken | Responded response

datatype event = Lock | Unlock | Sleep real | Yield | Call string string

text \<open>
  \<open>Sleep d\<close> is a call \<^verbatim>\<open>asyncio.sleep(d)\<close> with a finite \<open>d\<close>; \<open>Yield\<close> is the
  call with the delay minus infinity, which gives way to other tasks once and returns.
\<close>

datatype 'a result = Returned 'a | Raised error | Hang

datatype nan_delay = Returns | Never | Refused

text \<open>
  \<open>Hang\<close>: the caller is suspended and never resumed. The world paired with a
  \<open>Hang\<close> is the one in which the caller entered the suspension that does not end.
\<close>

record bucket =
  rate :: real
  capacity :: int
  tokens :: real
  last_update :: real

record world =
  base_url :: string
  rate_limiter :: bucket
  clock :: real
  trace :: "event list"
  requests :: nat
  server :: "nat \<Rightarrow> string \<Rightarrow> string \<Rightarrow> outcome"
  draws :: nat
  rnd :: "nat \<Rightarrow> real"
  sleep_nan :: nan_delay

text \<open>
  The environment of one client: \<open>clock\<close> is what \<^verbatim>\<open>time.time()\<close> returns,
  \<open>trace\<close> the effects so far in the order they happened, \<open>server k m u\<close> the outcome
  of the \<open>k\<close>-th transport call of the client when it asks for method \<open>m\<close> at URL \<open>u\<close>,
  \<open>requests\<close> the number of transport calls made so far, \<open>rnd k\<close> the \<open>k\<close>-th value of
  \<^verbatim>\<open>random.random()\<close> and \<open>draws\<close> the number of values drawn so far.
  \<open>sleep_nan\<close> is what \<^verbatim>\<open>asyncio.sleep\<close> does with a NaN delay, which depends on
  the interpreter: \<open>Returns\<close> where the call returns at once, \<open>Never\<close> where the timer
  never fires (Python 3.11), \<open>Refused\<close> where the call raises \<^verbatim>\<open>ValueError\<close>
  (Python 3.13).
\<close>

subsection \<open>TokenBucket\<close>

definition TokenBucket :: "real \<Rightarrow> int \<Rightarrow> real \<Rightarrow> bucket" where
  "TokenBucket r c now =
     \<lparr>rate = r, capacity = c, tokens = real_of_int c, last_update = now\<rparr>"

definition emit :: "event \<Rightarrow> world \<Rightarrow> world" where
  "emit e w = w\<lparr>trace := trace w @ [e]\<rparr>"

text \<open>
  \<^verbatim>\<open>asyncio.sleep(d)\<close>: the caller wakes after \<open>d\<close> seconds, at once when \<open>d\<close> is
  not positive.
\<close>

definition sleep :: "real \<Rightarrow> world \<Rightarrow> world" where
  "sleep d w = emit (Sleep d) (w\<lparr>clock := clock w + max 0 d\<rparr>)"

definition refill :: "real \<Rightarrow> bucket \<Rightarrow> bucket" where
  "refill now b =
     b\<lparr>tokens := min (real_of_int (capacity b)) (tokens b + (now - last_update b) * rate b),
       last_update := now\<rparr>"

definition take_tokens :: "int \<Rightarrow> bucket \<Rightarrow> bucket" where
  "take_tokens n b = b\<lparr>tokens := tokens b - real_of_int n\<rparr>"

text \<open>
  The \<^verbatim>\<open>while True\<close> of \<^verbatim>\<open>acquire\<close>. A division by a zero rate raises in Python,
  so it is a branch of its own here.
\<close>

partial_function (option) acquire_loop :: "int \<Rightarrow> world \<Rightarrow> ((error + unit) \<times> world) option" where
  "acquire_loop n w =
     (if real_of_int n \<le> tokens (refill (clock w) (rate_limiter w))
      then Some (Inr (), w\<lparr>rate_limiter := take_tokens n (refill (clock w) (rate_limiter w))\<rparr>)
      else if rate (rate_limiter w) = 0
      then Some (Inl ZeroDivisionError, w\<lparr>rate_limiter := refill (clock w) (rate_limiter w)\<rparr>)
      else acquire_loop n
             (sleep ((real_of_int n - tokens (refill (clock w) (rate_limiter w))) / rate (rate_limiter w))
                (w\<lparr>rate_limiter := refill (clock w) (rate_limiter w)\<rparr>)))"

text \<open>
  \<^verbatim>\<open>async with self.lock:\<close> encloses the whole loop: the lock is taken before the
  first iteration and released when the body is left, by \<^verbatim>\<open>return\<close> or by an
  exception.
\<close>

definition acquire :: "int \<Rightarrow> world \<Rightarrow> ((error + unit) \<times> world) option" where
  "acquire n w =
     (case acquire_loop n (emit Lock w) of
        None \<Rightarrow> None
      | Some (r, w') \<Rightarrow> Some (r, emit Unlock w'))"

subsection \<open>The builtin \<^verbatim>\<open>float\<close> on strings\<close>

text \<open>
  A string is a list of code points below 256. \<^verbatim>\<open>float(s)\<close> drops the blanks around
  \<open>s\<close> (among these code points: 9 to 13, 32, 133 and 160), reads an optional sign and
  then either one of the words \<^verbatim>\<open>inf\<close>, \<^verbatim>\<open>infinity\<close>, \<^verbatim>\<open>nan\<close> in any
  mix of cases, or a decimal number: digits, which single underscores may group, with an
  optional fraction and an optional exponent. Any other string raises
  \<^verbatim>\<open>ValueError\<close>, which is \<open>None\<close> here. A number whose magnitude reaches
  \<open>2 ^ 1024 - 2 ^ 970\<close> rounds to an infinity; below that the value is the exact decimal
  value (the rounding to a double is not modelled).
\<close>

datatype pyfloat = Finite real | PosInf | NegInf | NaN

definition is_space :: "char \<Rightarrow> bool" where
  "is_space c \<longleftrightarrow> (of_char c :: nat) \<in> {9, 10, 11, 12, 13, 32, 133, 160}"

definition is_digit :: "char \<Rightarrow> bool" where
  "is_digit c \<longleftrightarrow> 48 \<le> (of_char c :: nat) \<and> (of_char c :: nat) \<le> 57"

definition strip :: "string \<Rightarrow> string" where
  "strip s = rev (dropWhile is_space (rev (dropWhile is_space s)))"

fun digitpart :: "string \<Rightarrow> bool" where
  "digitpart [] = False"
| "digitpart [c] = is_digit c"
| "digitpart (c # d # cs) =
     (is_digit c \<and> (if d = CHR ''_'' then digitpart cs else digitpart (d # cs)))"

definition digits_value :: "string \<Rightarrow> nat" where
  "digits_value s = foldl (\<lambda>a c. 10 * a + (of_char c - 48)) 0 (filter is_digit s)"

definition number :: "string \<Rightarrow> real option" where
  "number s =
     (let ip = takeWhile (\<lambda>c. c \<noteq> CHR ''.'') s;
          rest = dropWhile (\<lambda>c. c \<noteq> CHR ''.'') s
      in if rest = [] then (if digitpart ip then Some (real (digits_value ip)) else None)
         else let fp = tl rest
              in if (fp = [] \<and> digitpart ip) \<or> ((ip = [] \<or> digitpart ip) \<and> digitpart fp)
                 then Some (real (digits_value ip)
                            + real (digits_value fp) / 10 ^ length (filter is_digit fp))
                 else None)"

definition signed :: "string \<Rightarrow> (bool \<times> string)" where
  "signed s =
     (case s of
        [] \<Rightarrow> (False, [])
      | c # cs \<Rightarrow> if c = CHR ''-'' then (True, cs) else if c = CHR ''+'' then (False, cs)
                  else (False, s))"

definition exponent :: "string \<Rightarrow> int option" where
  "exponent s =
     (let (neg, ds) = signed s
      in if digitpart ds
         then Some (if neg then - int (digits_value ds) else int (digits_value ds))
         else None)"

definition floatnumber :: "string \<Rightarrow> real option" where
  "floatnumber s =
     (let mant = takeWhile (\<lambda>c. c \<noteq> CHR ''e'' \<and> c \<noteq> CHR ''E'') s;
          rest = dropWhile (\<lambda>c. c \<noteq> CHR ''e'' \<and> c \<noteq> CHR ''E'') s
      in case number mant of
           None \<Rightarrow> None
         | Some x \<Rightarrow>
             if rest = [] then Some x
             else (case exponent (tl rest) of
                     None \<Rightarrow> None
                   | Some e \<Rightarrow> Some (if 0 \<le> e then x * 10 ^ nat e else x / 10 ^ nat (- e))))"

text \<open>The letters of the three words, in lower case; every other character as it is.\<close>

definition fold_case :: "char \<Rightarrow> char" where
  "fold_case c =
     (if c = CHR ''I'' then CHR ''i'' else if c = CHR ''N'' then CHR ''n''
      else if c = CHR ''F'' then CHR ''f'' else if c = CHR ''T'' then CHR ''t''
      else if c = CHR ''Y'' then CHR ''y'' else if c = CHR ''A'' then CHR ''a'' else c)"

definition to_float :: "real \<Rightarrow> pyfloat" where
  "to_float x =
     (if 2 ^ 1024 - 2 ^ 970 \<le> x then PosInf
      else if x \<le> - (2 ^ 1024 - 2 ^ 970) then NegInf
      else Finite x)"

definition py_float :: "string \<Rightarrow> pyfloat option" where
  "py_float s =
     (let (neg, body) = signed (strip s)
      in if map fold_case body = ''inf'' \<or> map fold_case body = ''infinity''
         then Some (if neg then NegInf else PosInf)
         else if map fold_case body = ''nan'' then Some NaN
         else case floatnumber body of
                None \<Rightarrow> None
              | Some x \<Rightarrow> Some (to_float (if neg then - x else x)))"

subsection \<open>DonetickClient: one request with retries\<close>

text \<open>\<^verbatim>\<open>self.client.request(method, url)\<close>: one transport call.\<close>

definition transport :: "string \<Rightarrow> string \<Rightarrow> world \<Rightarrow> outcome \<times> world" where
  "transport m url w =
     (server w (requests w) m url, emit (Call m url) (w\<lparr>requests := Suc (requests w)\<rparr>))"

text \<open>\<^verbatim>\<open>random.uniform(a, b)\<close> is \<^verbatim>\<open>a + (b - a) * random()\<close>.\<close>

definition uniform :: "real \<Rightarrow> real \<Rightarrow> world \<Rightarrow> real \<times> world" where
  "uniform a b w = (a + (b - a) * rnd w (draws w), w\<lparr>draws := Suc (draws w)\<rparr>)"

text \<open>
  \<^verbatim>\<open>asyncio.sleep\<close> on a Python float. A finite delay is \<open>sleep\<close>; an infinite one
  never ends; minus infinity is not positive, so the call returns at once; for NaN the
  world's \<open>sleep_nan\<close> decides. \<open>None\<close> in the first component: the caller goes on.
\<close>

definition asyncio_sleep :: "pyfloat \<Rightarrow> world \<Rightarrow> json result option \<times> world" where
  "asyncio_sleep x w =
     (case x of
        Finite t \<Rightarrow> (None, sleep t w)
      | PosInf \<Rightarrow> (Some Hang, w)
      | NegInf \<Rightarrow> (None, emit Yield w)
      | NaN \<Rightarrow>
          (case sleep_nan w of
             Returns \<Rightarrow> (None, w)
           | Never \<Rightarrow> (Some Hang, w)
           | Refused \<Rightarrow> (Some (Raised ValueError), w)))"

text \<open>
  The exponential backoff with jitter, which the handlers of the timeout and of the
  server error both spell out in the same four lines, \<^verbatim>\<open>base_delay\<close> being 1.0.
  The product \<^verbatim>\<open>base_delay * (2**attempt)\<close> converts the integer to a float, which
  raises \<^verbatim>\<open>OverflowError\<close> from \<open>2 ^ 1024\<close> on: then nothing is drawn and nothing
  is slept, and the error leaves the handler. \<open>None\<close> in the first component: the loop
  goes on.
\<close>

definition backoff :: "nat \<Rightarrow> world \<Rightarrow> json result option \<times> world" where
  "backoff attempt w =
     (if 1024 \<le> attempt then (Some (Raised OverflowError), w)
      else let delay = min (1 * 2 ^ attempt) 60;
               (u, w1) = uniform (- 0.25) 0.25 w;
               jitter = delay * u;
               wait_time = delay + jitter
           in (None, sleep wait_time w1))"

text \<open>
  \<^verbatim>\<open>response.raise_for_status()\<close> of httpx raises \<^verbatim>\<open>HTTPStatusError\<close> unless the
  status is a success, 200 to 299.
\<close>

definition is_success :: "int \<Rightarrow> bool" where
  "is_success s \<longleftrightarrow> 200 \<le> s \<and> s \<le> 299"

text \<open>
  The body of the \<^verbatim>\<open>for\<close> loop with its two handlers. \<open>None\<close> in the first
  component: the loop goes on with the next attempt; \<open>Some r\<close>: the request ends
  with \<open>r\<close>.
\<close>

definition attempt_step ::
  "string \<Rightarrow> string \<Rightarrow> int \<Rightarrow> nat \<Rightarrow> world \<Rightarrow> json result option \<times> world" where
  "attempt_step m url max_retries attempt w =
     (case acquire 1 w of
        None \<Rightarrow> (Some Hang, w)
      | Some (Inl e, w1) \<Rightarrow> (Some (Raised e), w1)
      | Some (Inr u, w1) \<Rightarrow>
          (let (out, w2) = transport m url w1
           in case out of
                TimedOut \<Rightarrow>
                  if int attempt = max_retries - 1 then (Some (Raised TimeoutException), w2)
                  else backoff attempt w2
              | Broken \<Rightarrow> (Some (Raised TransportError), w2)
              | Responded r \<Rightarrow>
                  if status_code r = 429
                  then (case py_float (case headers r ''Retry-After'' of
                                         None \<Rightarrow> ''60'' | Some v \<Rightarrow> v) of
                          None \<Rightarrow> (Some (Raised ValueError), w2)
                        | Some wait_time \<Rightarrow> asyncio_sleep wait_time w2)
                  else if \<not> is_success (status_code r)
                  then (if 400 \<le> status_code r \<and> status_code r < 500 \<and> status_code r \<noteq> 429
                        then (Some (Raised (HTTPStatusError (status_code r) (body_text r))), w2)
                        else if int attempt = max_retries - 1
                        then (Some (Raised (HTTPStatusError (status_code r) (body_text r))), w2)
                        else backoff attempt w2)
                  else (case body_json r of
                          None \<Rightarrow> (Some (Raised JSONDecodeError), w2)
                        | Some j \<Rightarrow> (Some (Returned j), w2))))"

text \<open>
  \<^verbatim>\<open>for attempt in range(max_retries)\<close>, and the \<^verbatim>\<open>raise Exception\<close> after
  the loop.
\<close>

fun request_loop ::
  "string \<Rightarrow> string \<Rightarrow> int \<Rightarrow> nat list \<Rightarrow> world \<Rightarrow> json result \<times> world" where
  "request_loop m url max_retries [] w = (Raised (Failed max_retries), w)"
| "request_loop m url max_retries (attempt # rest) w =
     (case attempt_step m url max_retries attempt w of
        (Some r, w') \<Rightarrow> (r, w')
      | (None, w') \<Rightarrow> request_loop m url max_retries rest w')"

definition request :: "string \<Rightarrow> string \<Rightarrow> int \<Rightarrow> world \<Rightarrow> json result \<times> world" where
  "request m path max_retries w =
     request_loop m (base_url w @ path) max_retries [0..<nat max_retries] w"

subsection \<open>The model \<^verbatim>\<open>Chore\<close>\<close>

text \<open>The fields of a \<^verbatim>\<open>Chore\<close> that the client reads.\<close>

record chore =
  id_field :: int
  name :: string
  isActive :: bool
  assignedTo :: int

text \<open>
  \<^verbatim>\<open>models.py\<close> declares the fields of a \<^verbatim>\<open>Chore\<close>: which are required, which
  have a default, which may be null, and what type each has. The validation itself is
  pydantic's. Its structure is modelled here from the declaration; how a JSON value is
  accepted as an \<^verbatim>\<open>int\<close>, a \<^verbatim>\<open>str\<close> or a \<^verbatim>\<open>bool\<close> is pydantic's
  business and is the parameter \<open>cv\<close>.
\<close>

record conversions =
  to_int :: "json \<Rightarrow> int option"
  to_str :: "json \<Rightarrow> string option"
  to_bool :: "json \<Rightarrow> bool option"

definition required :: "(json \<Rightarrow> 'a option) \<Rightarrow> (string \<times> json) list \<Rightarrow> string \<Rightarrow> 'a option" where
  "required conv kvs k = (case map_of kvs k of None \<Rightarrow> None | Some j \<Rightarrow> conv j)"

definition defaulted ::
  "(json \<Rightarrow> 'a option) \<Rightarrow> 'a \<Rightarrow> (string \<times> json) list \<Rightarrow> string \<Rightarrow> 'a option" where
  "defaulted conv d kvs k = (case map_of kvs k of None \<Rightarrow> Some d | Some j \<Rightarrow> conv j)"

definition nullable :: "(json \<Rightarrow> 'a option) \<Rightarrow> json \<Rightarrow> 'a option option" where
  "nullable conv j = (case j of JNull \<Rightarrow> Some None | _ \<Rightarrow> map_option Some (conv j))"

definition list_of :: "(json \<Rightarrow> 'a option) \<Rightarrow> json \<Rightarrow> 'a list option" where
  "list_of conv j = (case j of JArr xs \<Rightarrow> those (map conv xs) | _ \<Rightarrow> None)"

definition dict_any :: "json \<Rightarrow> unit option" where
  "dict_any j = (case j of JObj kvs \<Rightarrow> Some () | _ \<Rightarrow> None)"

definition anything :: "json \<Rightarrow> unit option" where
  "anything j = Some ()"

definition in_range :: "int \<Rightarrow> int \<Rightarrow> int option \<Rightarrow> unit option" where
  "in_range lo hi x =
     (case x of None \<Rightarrow> Some () | Some p \<Rightarrow> if lo \<le> p \<and> p \<le> hi then Some () else None)"

definition Assignee :: "conversions \<Rightarrow> json \<Rightarrow> unit option" where
  "Assignee cv j =
     (case j of
        JObj kvs \<Rightarrow> map_option (\<lambda>u. ()) (required (to_int cv) kvs ''userId'')
      | _ \<Rightarrow> None)"

definition Label :: "conversions \<Rightarrow> json \<Rightarrow> unit option" where
  "Label cv j =
     (case j of
        JObj kvs \<Rightarrow>
          if required (to_int cv) kvs ''id'' \<noteq> None \<and> required (to_str cv) kvs ''name'' \<noteq> None
          then Some () else None
      | _ \<Rightarrow> None)"

definition NotificationMetadata :: "conversions \<Rightarrow> json \<Rightarrow> unit option" where
  "NotificationMetadata cv j =
     (case j of
        JObj kvs \<Rightarrow>
          if defaulted (to_bool cv) False kvs ''nagging'' \<noteq> None
             \<and> defaulted (to_bool cv) False kvs ''predue'' \<noteq> None
          then Some () else None
      | _ \<Rightarrow> None)"

text \<open>The fields that the client does not read: each must validate all the same.\<close>

definition other_fields :: "conversions \<Rightarrow> (string \<times> json) list \<Rightarrow> bool" where
  "other_fields cv kvs \<longleftrightarrow>
       defaulted (nullable (to_str cv)) None kvs ''description'' \<noteq> None
     \<and> required (to_str cv) kvs ''frequencyType'' \<noteq> None
     \<and> required (to_int cv) kvs ''frequency'' \<noteq> None
     \<and> defaulted dict_any () kvs ''frequencyMetadata'' \<noteq> None
     \<and> defaulted (nullable (to_str cv)) None kvs ''nextDueDate'' \<noteq> None
     \<and> defaulted (to_bool cv) False kvs ''isRolling'' \<noteq> None
     \<and> defaulted (list_of (Assignee cv)) [] kvs ''assignees'' \<noteq> None
     \<and> defaulted (to_str cv) ''least_completed'' kvs ''assignStrategy'' \<noteq> None
     \<and> defaulted (to_bool cv) False kvs ''notification'' \<noteq> None
     \<and> defaulted (NotificationMetadata cv) () kvs ''notificationMetadata'' \<noteq> None
     \<and> defaulted (nullable (list_of (to_str cv))) None kvs ''labels'' \<noteq> None
     \<and> defaulted (list_of (Label cv)) [] kvs ''labelsV2'' \<noteq> None
     \<and> required (to_int cv) kvs ''circleId'' \<noteq> None
     \<and> required (to_str cv) kvs ''createdAt'' \<noteq> None
     \<and> required (to_str cv) kvs ''updatedAt'' \<noteq> None
     \<and> required (to_int cv) kvs ''createdBy'' \<noteq> None
     \<and> defaulted (nullable (to_int cv)) None kvs ''updatedBy'' \<noteq> None
     \<and> defaulted (nullable (to_str cv)) None kvs ''status'' \<noteq> None
     \<and> Option.bind (defaulted (nullable (to_int cv)) None kvs ''priority'') (in_range 1 5) \<noteq> None
     \<and> defaulted (to_bool cv) False kvs ''isPrivate'' \<noteq> None
     \<and> defaulted (nullable (to_int cv)) None kvs ''points'' \<noteq> None
     \<and> defaulted (list_of anything) [] kvs ''subTasks'' \<noteq> None
     \<and> defaulted (nullable dict_any) None kvs ''thingChore'' \<noteq> None"

text \<open>
  \<^verbatim>\<open>Chore(**chore_data)\<close>: the argument of \<^verbatim>\<open>**\<close> must be a mapping, and its
  fields must validate.
\<close>

fun Chore :: "conversions \<Rightarrow> json \<Rightarrow> error + chore" where
  "Chore cv (JObj kvs) =
     (case (required (to_int cv) kvs ''id'', required (to_str cv) kvs ''name'',
            defaulted (to_bool cv) True kvs ''isActive'', required (to_int cv) kvs ''assignedTo'') of
        (Some i, Some n, Some a, Some u) \<Rightarrow>
          if other_fields cv kvs
          then Inr \<lparr>id_field = i, name = n, isActive = a, assignedTo = u\<rparr>
          else Inl ValidationError
      | _ \<Rightarrow> Inl ValidationError)"
| "Chore cv j = Inl TypeError"

subsection \<open>DonetickClient: reading chores\<close>

text \<open>
  What \<^verbatim>\<open>for chore_data in data\<close> iterates over: the elements of an array, the keys
  of an object, the characters of a string; the other values are not iterable.
\<close>

fun iterate :: "json \<Rightarrow> error + json list" where
  "iterate (JArr xs) = Inr xs"
| "iterate (JObj kvs) = Inr (map (\<lambda>kv. JStr (fst kv)) kvs)"
| "iterate (JStr s) = Inr (map (\<lambda>c. JStr [c]) s)"
| "iterate j = Inl TypeError"

fun chores_of :: "conversions \<Rightarrow> json list \<Rightarrow> error + chore list" where
  "chores_of cv [] = Inr []"
| "chores_of cv (d # ds) =
     (case Chore cv d of
        Inl e \<Rightarrow> Inl e
      | Inr c \<Rightarrow> (case chores_of cv ds of Inl e \<Rightarrow> Inl e | Inr cs \<Rightarrow> Inr (c # cs)))"

definition list_chores ::
  "conversions \<Rightarrow> bool option \<Rightarrow> int option \<Rightarrow> world \<Rightarrow> chore list result \<times> world" where
  "list_chores cv filter_active assigned_to_user_id w =
     (case request ''GET'' ''/eapi/v1/chore'' 3 w of
        (Hang, w') \<Rightarrow> (Hang, w')
      | (Raised e, w') \<Rightarrow> (Raised e, w')
      | (Returned data, w') \<Rightarrow>
          (case iterate data of
             Inl e \<Rightarrow> (Raised e, w')
           | Inr ds \<Rightarrow>
               (case chores_of cv ds of
                  Inl e \<Rightarrow> (Raised e, w')
                | Inr chores \<Rightarrow>
                    (let chores1 = (case filter_active of
                                      None \<Rightarrow> chores
                                    | Some a \<Rightarrow> filter (\<lambda>c. isActive c = a) chores);
                         chores2 = (case assigned_to_user_id of
                                      None \<Rightarrow> chores1
                                    | Some u \<Rightarrow> filter (\<lambda>c. assignedTo c = u) chores1)
                     in (Returned chores2, w')))))"

definition get_chore :: "conversions \<Rightarrow> int \<Rightarrow> world \<Rightarrow> chore option result \<times> world" where
  "get_chore cv chore_id w =
     (case list_chores cv None None w of
        (Hang, w') \<Rightarrow> (Hang, w')
      | (Raised e, w') \<Rightarrow> (Raised e, w')
      | (Returned chores, w') \<Rightarrow> (Returned (find (\<lambda>chore. id_field chore = chore_id) chores), w'))"

subsection \<open>Runs of a bucket, and what a trace says about its lock\<close>

text \<open>
  The bucket refills lazily: its fields change inside \<^verbatim>\<open>acquire\<close> only. Between two
  calls the clock moves on, which is the operation \<open>Idle\<close>.
\<close>

datatype op = Acquire int | Idle real

fun apply_op :: "op \<Rightarrow> world \<Rightarrow> world option" where
  "apply_op (Acquire n) w = map_option snd (acquire n w)"
| "apply_op (Idle d) w = Some (w\<lparr>clock := clock w + d\<rparr>)"

fun run :: "op list \<Rightarrow> world \<Rightarrow> world option" where
  "run [] w = Some w"
| "run (x # xs) w = (case apply_op x w of None \<Rightarrow> None | Some w' \<Rightarrow> run xs w')"

fun valid_op :: "int \<Rightarrow> op \<Rightarrow> bool" where
  "valid_op c (Acquire n) \<longleftrightarrow> 0 \<le> n \<and> n \<le> c"
| "valid_op c (Idle d) \<longleftrightarrow> 0 \<le> d"

definition within_capacity :: "bucket \<Rightarrow> bool" where
  "within_capacity b \<longleftrightarrow> 0 \<le> tokens b \<and> tokens b \<le> real_of_int (capacity b)"

text \<open>
  \<open>sleeps_outside_lock held es\<close>: no sleep of the trace \<open>es\<close> happens while the lock
  is held, \<open>held\<close> saying whether it is held when the trace starts.
\<close>

fun sleeps_outside_lock :: "bool \<Rightarrow> event list \<Rightarrow> bool" where
  "sleeps_outside_lock held [] \<longleftrightarrow> True"
| "sleeps_outside_lock held (Lock # es) \<longleftrightarrow> sleeps_outside_lock True es"
| "sleeps_outside_lock held (Unlock # es) \<longleftrightarrow> sleeps_outside_lock False es"
| "sleeps_outside_lock held (Sleep d # es) \<longleftrightarrow> \<not> held \<and> sleeps_outside_lock held es"
| "sleeps_outside_lock held (Yield # es) \<longleftrightarrow> \<not> held \<and> sleeps_outside_lock held es"
| "sleeps_outside_lock held (Call m u # es) \<longleftrightarrow> sleeps_outside_lock held es"

text \<open>
  What a call of the bucket's loop changes besides the bucket and the clock: it adds
  sleeps to the trace, and nothing else.
\<close>

definition only_slept :: "world \<Rightarrow> world \<Rightarrow> bool" where
  "only_slept w w' \<longleftrightarrow>
     (\<exists>ds. trace w' = trace w @ map Sleep ds) \<and> requests w' = requests w \<and> server w' = server w
     \<and> draws w' = draws w \<and> rnd w' = rnd w \<and> base_url w' = base_url w
     \<and> rate (rate_limiter w') = rate (rate_limiter w)
     \<and> capacity (rate_limiter w') = capacity (rate_limiter w)"

subsection \<open>Outcomes that are retried, and the error each one ends with\<close>

definition retryable :: "outcome \<Rightarrow> bool" where
  "retryable out \<longleftrightarrow>
     (case out of
        TimedOut \<Rightarrow> True
      | Broken \<Rightarrow> False
      | Responded r \<Rightarrow> 500 \<le> status_code r \<and> status_code r \<le> 599)"

definition terminal_error :: "outcome \<Rightarrow> error" where
  "terminal_error out =
     (case out of
        TimedOut \<Rightarrow> TimeoutException
      | Broken \<Rightarrow> TransportError
      | Responded r \<Rightarrow> HTTPStatusError (status_code r) (body_text r))"

definition admits :: "bucket \<Rightarrow> bool" where
  "admits b \<longleftrightarrow> 0 < rate b \<and> 1 \<le> capacity b"

text \<open>
  What no step of a request changes: the server, the base URL, the random source, and the
  rate and capacity of the bucket.
\<close>

definition same_setup :: "world \<Rightarrow> world \<Rightarrow> bool" where
  "same_setup w w' \<longleftrightarrow>
     server w' = server w \<and> base_url w' = base_url w \<and> rnd w' = rnd w
     \<and> rate (rate_limiter w') = rate (rate_limiter w)
     \<and> capacity (rate_limiter w') = capacity (rate_limiter w)"

text \<open>
  A 429 whose \<^verbatim>\<open>Retry-After\<close> header is absent or holds a finite number.
\<close>

definition told_to_wait :: "outcome \<Rightarrow> bool" where
  "told_to_wait out \<longleftrightarrow>
     (case out of
        TimedOut \<Rightarrow> False
      | Broken \<Rightarrow> False
      | Responded r \<Rightarrow>
          status_code r = 429
          \<and> (case headers r ''Retry-After'' of
                None \<Rightarrow> True
              | Some v \<Rightarrow> (case py_float v of Some (Finite t) \<Rightarrow> True | _ \<Rightarrow> False)))"

text \<open>
  The loop completes: every attempt of the list, run in the world its predecessor left,
  goes on to the next one instead of ending the request.
\<close>

fun completes :: "string \<Rightarrow> string \<Rightarrow> int \<Rightarrow> nat list \<Rightarrow> world \<Rightarrow> bool" where
  "completes m url max_retries [] w \<longleftrightarrow> True"
| "completes m url max_retries (attempt # rest) w \<longleftrightarrow>
     (case attempt_step m url max_retries attempt w of
        (Some r, w') \<Rightarrow> False
      | (None, w') \<Rightarrow> completes m url max_retries rest w')"

text \<open>
  Every transport call among the events \<open>es\<close> is a call of method \<open>m\<close> at URL
  \<open>url\<close>.
\<close>

fun is_call_of :: "string \<Rightarrow> string \<Rightarrow> event \<Rightarrow> bool" where
  "is_call_of m url (Call m' url') \<longleftrightarrow> m' = m \<and> url' = url"
| "is_call_of m url e \<longleftrightarrow> True"

definition only_calls :: "string \<Rightarrow> string \<Rightarrow> event list \<Rightarrow> bool" where
  "only_calls m url es \<longleftrightarrow> list_all (is_call_of m url) es"

subsection \<open>Worlds of the test suite\<close>

text \<open>
  The client of \<^verbatim>\<open>tests/test_client.py\<close> (100 requests per second, bursts of 100)
  and the bucket of its \<^verbatim>\<open>TestTokenBucket\<close> (10 per second, capacity 10), both
  created at time 0, in front of a server given as \<open>srv\<close>.
\<close>

definition test_world :: "bucket \<Rightarrow> (nat \<Rightarrow> string \<Rightarrow> string \<Rightarrow> outcome) \<Rightarrow> world" where
  "test_world b srv =
     \<lparr>base_url = ''https://test.donetick.com'', rate_limiter = b, clock = 0, trace = [],
      requests = 0, server = srv, draws = 0, rnd = (\<lambda>k. 3 / 4), sleep_nan = Never\<rparr>"

definition reply :: "int \<Rightarrow> (string \<Rightarrow> string option) \<Rightarrow> json option \<Rightarrow> outcome" where
  "reply s h j = Responded \<lparr>status_code = s, headers = h, body_text = [], body_json = j\<rparr>"

definition never_answers :: "nat \<Rightarrow> string \<Rightarrow> string \<Rightarrow> outcome" where
  "never_answers k m u = TimedOut"

definition always_500 :: "nat \<Rightarrow> string \<Rightarrow> string \<Rightarrow> outcome" where
  "always_500 k m u = reply 500 (\<lambda>h. None) None"

definition not_found :: "nat \<Rightarrow> string \<Rightarrow> string \<Rightarrow> outcome" where
  "not_found k m u = reply 404 (\<lambda>h. None) (Some (JObj [(''error'', JStr ''Not found'')]))"

definition busy_until_date :: "nat \<Rightarrow> string \<Rightarrow> string \<Rightarrow> outcome" where
  "busy_until_date k m u =
     reply 429 [''Retry-After'' \<mapsto> ''Wed, 21 Oct 2015 07:28:00 GMT''] None"

definition always_busy :: "nat \<Rightarrow> string \<Rightarrow> string \<Rightarrow> outcome" where
  "always_busy k m u = reply 429 [''Retry-After'' \<mapsto> ''0.1''] None"

text \<open>The chore of the tests, \<^verbatim>\<open>sample_chore_data\<close>, and a server that lists it.\<close>

definition sample_chore_data :: json where
  "sample_chore_data =
     JObj [(''id'', JInt 1), (''name'', JStr ''Test Chore''),
           (''description'', JStr ''Test description''), (''frequencyType'', JStr ''once''),
           (''frequency'', JInt 1), (''frequencyMetadata'', JObj []),
           (''nextDueDate'', JStr ''2025-11-10T00:00:00Z''), (''isRolling'', JBool False),
           (''assignedTo'', JInt 1), (''assignees'', JArr [JObj [(''userId'', JInt 1)]]),
           (''assignStrategy'', JStr ''least_completed''), (''isActive'', JBool True),
           (''notification'', JBool False),
           (''notificationMetadata'', JObj [(''nagging'', JBool False), (''predue'', JBool False)]),
           (''labels'', JNull), (''labelsV2'', JArr []), (''circleId'', JInt 1),
           (''createdAt'', JStr ''2025-11-03T00:00:00Z''),
           (''updatedAt'', JStr ''2025-11-03T00:00:00Z''), (''createdBy'', JInt 1),
           (''updatedBy'', JInt 1), (''status'', JStr ''active''), (''priority'', JInt 2),
           (''isPrivate'', JBool False), (''points'', JNull), (''subTasks'', JArr []),
           (''thingChore'', JNull)]"

definition one_chore :: "nat \<Rightarrow> string \<Rightarrow> string \<Rightarrow> outcome" where
  "one_chore k m u =
     (if m = ''GET'' \<and> u = ''https://test.donetick.com/eapi/v1/chore''
      then reply 200 (\<lambda>h. None) (Some (JArr [sample_chore_data]))
      else reply 404 (\<lambda>h. None) None)"

text \<open>A server whose list holds one object with an id and nothing else.\<close>

definition bare_chore :: "nat \<Rightarrow> string \<Rightarrow> string \<Rightarrow> outcome" where
  "bare_chore k m u = reply 200 (\<lambda>h. None) (Some (JArr [JObj [(''id'', JInt 1)]]))"

text \<open>
  The conversions that accept a value of exactly the declared type and nothing else.
  Every value they accept pydantic accepts, with the same result; the further values
  that pydantic's lax mode converts (a numeric string for an \<^verbatim>\<open>int\<close>, 0 and 1 for a
  \<^verbatim>\<open>bool\<close>) are rejected by them.
\<close>

definition exact :: conversions where
  "exact =
     \<lparr>to_int = (\<lambda>j. case j of JInt i \<Rightarrow> Some i | _ \<Rightarrow> None),
      to_str = (\<lambda>j. case j of JStr s \<Rightarrow> Some s | _ \<Rightarrow> None),
      to_bool = (\<lambda>j. case j of JBool b \<Rightarrow> Some b | _ \<Rightarrow> None)\<rparr>"

section \<open>Properties of the bucket\<close>

lemma refill_fields [simp]:
  "rate (refill t b) = rate b"
  "capacity (refill t b) = capacity b"
  "last_update (refill t b) = t"
  by (simp_all add: refill_def)

lemma tokens_refill:
  "tokens (refill t b) = min (real_of_int (capacity b)) (tokens b + (t - last_update b) * rate b)"
  by (simp add: refill_def)

lemma take_fields [simp]:
  "rate (take_tokens n b) = rate b"
  "capacity (take_tokens n b) = capacity b"
  "last_update (take_tokens n b) = last_update b"
  "tokens (take_tokens n b) = tokens b - real_of_int n"
  by (simp_all add: take_tokens_def)

lemma emit_fields [simp]:
  "clock (emit e w) = clock w"
  "trace (emit e w) = trace w @ [e]"
  "rate_limiter (emit e w) = rate_limiter w"
  "requests (emit e w) = requests w"
  "server (emit e w) = server w"
  "draws (emit e w) = draws w"
  "rnd (emit e w) = rnd w"
  "base_url (emit e w) = base_url w"
  by (simp_all add: emit_def)

lemma sleep_fields [simp]:
  "clock (sleep d w) = clock w + max 0 d"
  "trace (sleep d w) = trace w @ [Sleep d]"
  "rate_limiter (sleep d w) = rate_limiter w"
  "requests (sleep d w) = requests w"
  "server (sleep d w) = server w"
  "draws (sleep d w) = draws w"
  "rnd (sleep d w) = rnd w"
  "base_url (sleep d w) = base_url w"
  by (simp_all add: sleep_def)

lemma acquire_loop_take:
  "real_of_int n \<le> tokens (refill (clock w) (rate_limiter w)) \<Longrightarrow>
   acquire_loop n w = Some (Inr (), w\<lparr>rate_limiter := take_tokens n (refill (clock w) (rate_limiter w))\<rparr>)"
  by (subst acquire_loop.simps) simp

lemma acquire_loop_wait:
  "\<not> real_of_int n \<le> tokens (refill (clock w) (rate_limiter w)) \<Longrightarrow> rate (rate_limiter w) \<noteq> 0 \<Longrightarrow>
   acquire_loop n w =
   acquire_loop n
     (sleep ((real_of_int n - tokens (refill (clock w) (rate_limiter w))) / rate (rate_limiter w))
        (w\<lparr>rate_limiter := refill (clock w) (rate_limiter w)\<rparr>))"
  by (subst acquire_loop.simps) simp

text \<open>After the computed wait the refill brings the bucket to exactly \<open>n\<close> tokens.\<close>

lemma refill_after_wait:
  assumes r: "0 < rate b" and c: "n \<le> capacity b" and lt: "tokens b < real_of_int n"
    and lu: "last_update b = t"
  shows "tokens (refill (t + max 0 ((real_of_int n - tokens b) / rate b)) b) = real_of_int n"
proof -
  have pos: "0 < (real_of_int n - tokens b) / rate b" using r lt by simp
  have "(real_of_int n - tokens b) / rate b * rate b = real_of_int n - tokens b" using r by simp
  moreover have "real_of_int n \<le> real_of_int (capacity b)" using c by simp
  ultimately show ?thesis using pos lu by (simp add: tokens_refill max_def)
qed

text \<open>The loop in closed form, for a request the bucket can serve.\<close>

lemma acquire_loop_closed:
  assumes r: "0 < rate (rate_limiter w)" and c: "n \<le> capacity (rate_limiter w)"
  shows "acquire_loop n w =
     Some (Inr (),
       if real_of_int n \<le> tokens (refill (clock w) (rate_limiter w))
       then w\<lparr>rate_limiter := take_tokens n (refill (clock w) (rate_limiter w))\<rparr>
       else (sleep ((real_of_int n - tokens (refill (clock w) (rate_limiter w))) / rate (rate_limiter w)) w)
              \<lparr>rate_limiter :=
                 (refill (clock w) (rate_limiter w))
                   \<lparr>tokens := 0,
                    last_update := clock w + (real_of_int n - tokens (refill (clock w) (rate_limiter w))) / rate (rate_limiter w)\<rparr>\<rparr>)"
proof (cases "real_of_int n \<le> tokens (refill (clock w) (rate_limiter w))")
  case True
  then show ?thesis by (simp add: acquire_loop_take)
next
  case False
  define b where "b = refill (clock w) (rate_limiter w)"
  define d where "d = (real_of_int n - tokens b) / rate b"
  define w1 where "w1 = sleep d (w\<lparr>rate_limiter := b\<rparr>)"
  have lt: "tokens b < real_of_int n" using False by (simp add: b_def)
  have rb: "0 < rate b" and cb: "n \<le> capacity b" and lb: "last_update b = clock w"
    using r c by (simp_all add: b_def)
  have dpos: "0 < d" using rb lt by (simp add: d_def)
  have full: "tokens (refill (clock w1) (rate_limiter w1)) = real_of_int n"
    using refill_after_wait [OF rb cb lt lb] by (simp add: w1_def d_def)
  have step: "acquire_loop n w = acquire_loop n w1"
    using False r by (simp add: acquire_loop_wait [of n w] w1_def d_def b_def)
  have "acquire_loop n w1 = Some (Inr (), w1\<lparr>rate_limiter := take_tokens n (refill (clock w1) (rate_limiter w1))\<rparr>)"
    using full by (simp add: acquire_loop_take)
  moreover have "w1\<lparr>rate_limiter := take_tokens n (refill (clock w1) (rate_limiter w1))\<rparr>
      = (sleep d w)\<lparr>rate_limiter := b\<lparr>tokens := 0, last_update := clock w + d\<rparr>\<rparr>"
    using full dpos by (simp add: w1_def sleep_def emit_def take_tokens_def refill_def max_def)
  ultimately show ?thesis using step False by (simp add: b_def d_def)
qed

lemma acquire_closed:
  assumes r: "0 < rate (rate_limiter w)" and c: "n \<le> capacity (rate_limiter w)"
  shows "acquire n w =
     Some (Inr (), emit Unlock
       (if real_of_int n \<le> tokens (refill (clock w) (rate_limiter w))
        then (emit Lock w)\<lparr>rate_limiter := take_tokens n (refill (clock w) (rate_limiter w))\<rparr>
        else (sleep ((real_of_int n - tokens (refill (clock w) (rate_limiter w))) / rate (rate_limiter w)) (emit Lock w))
               \<lparr>rate_limiter :=
                  (refill (clock w) (rate_limiter w))
                    \<lparr>tokens := 0,
                     last_update := clock w + (real_of_int n - tokens (refill (clock w) (rate_limiter w))) / rate (rate_limiter w)\<rparr>\<rparr>))"
proof -
  have "0 < rate (rate_limiter (emit Lock w))" and "n \<le> capacity (rate_limiter (emit Lock w))"
    using r c by simp_all
  from acquire_loop_closed [OF this] show ?thesis
    by (simp add: acquire_def)
qed

text \<open>A request for more than the capacity is never served and never refused.\<close>

lemma acquire_loop_never:
  assumes ret: "acquire_loop n w = Some r"
  shows "\<not> (capacity (rate_limiter w) < n \<and> rate (rate_limiter w) \<noteq> 0)"
proof (rule acquire_loop.raw_induct
    [where P = "\<lambda>n w r. \<not> (capacity (rate_limiter w) < n \<and> rate (rate_limiter w) \<noteq> 0)", OF _ ret])
  fix f n w r
  assume IH: "\<And>n w r. f n w = Some r \<Longrightarrow> \<not> (capacity (rate_limiter w) < n \<and> rate (rate_limiter w) \<noteq> 0)"
    and eq: "(if real_of_int n \<le> tokens (refill (clock w) (rate_limiter w))
      then Some (Inr (), w\<lparr>rate_limiter := take_tokens n (refill (clock w) (rate_limiter w))\<rparr>)
      else if rate (rate_limiter w) = 0
      then Some (Inl ZeroDivisionError, w\<lparr>rate_limiter := refill (clock w) (rate_limiter w)\<rparr>)
      else f n
             (sleep ((real_of_int n - tokens (refill (clock w) (rate_limiter w))) / rate (rate_limiter w))
                (w\<lparr>rate_limiter := refill (clock w) (rate_limiter w)\<rparr>))) = Some r"
  show "\<not> (capacity (rate_limiter w) < n \<and> rate (rate_limiter w) \<noteq> 0)"
  proof
    assume pre: "capacity (rate_limiter w) < n \<and> rate (rate_limiter w) \<noteq> 0"
    then have "real_of_int (capacity (rate_limiter w)) < real_of_int n" by simp
    then have "tokens (refill (clock w) (rate_limiter w)) < real_of_int n"
      by (simp add: tokens_refill min_less_iff_disj)
    with pre eq have "f n (sleep ((real_of_int n - tokens (refill (clock w) (rate_limiter w))) / rate (rate_limiter w))
                (w\<lparr>rate_limiter := refill (clock w) (rate_limiter w)\<rparr>)) = Some r"
      by simp
    from IH [OF this] pre show False by simp
  qed
qed

lemma acquire_never:
  assumes "capacity (rate_limiter w) < n" and "rate (rate_limiter w) \<noteq> 0"
  shows "acquire n w = None"
proof (cases "acquire_loop n (emit Lock w)")
  case None
  then show ?thesis by (simp add: acquire_def)
next
  case (Some r)
  from acquire_loop_never [OF this] assms show ?thesis by simp
qed

lemma only_slept_refl: "only_slept w (w\<lparr>rate_limiter := b\<rparr>) \<longleftrightarrow> rate b = rate (rate_limiter w) \<and> capacity b = capacity (rate_limiter w)"
  by (auto simp: only_slept_def intro: exI [of _ "[]"])

lemma only_slept_step:
  assumes "only_slept (sleep d (w\<lparr>rate_limiter := refill t (rate_limiter w)\<rparr>)) w'"
  shows "only_slept w w'"
proof -
  from assms obtain ds where "trace w' = trace w @ map Sleep (d # ds)"
    by (auto simp: only_slept_def)
  then have "\<exists>ds. trace w' = trace w @ map Sleep ds" by blast
  with assms show ?thesis by (simp add: only_slept_def)
qed

lemma acquire_loop_only_slept:
  assumes ret: "acquire_loop n w = Some r"
  shows "only_slept w (snd r)"
proof (rule acquire_loop.raw_induct [where P = "\<lambda>n w r. only_slept w (snd r)", OF _ ret])
  fix f n w r
  assume IH: "\<And>n w r. f n w = Some r \<Longrightarrow> only_slept w (snd r)"
    and eq: "(if real_of_int n \<le> tokens (refill (clock w) (rate_limiter w))
      then Some (Inr (), w\<lparr>rate_limiter := take_tokens n (refill (clock w) (rate_limiter w))\<rparr>)
      else if rate (rate_limiter w) = 0
      then Some (Inl ZeroDivisionError, w\<lparr>rate_limiter := refill (clock w) (rate_limiter w)\<rparr>)
      else f n
             (sleep ((real_of_int n - tokens (refill (clock w) (rate_limiter w))) / rate (rate_limiter w))
                (w\<lparr>rate_limiter := refill (clock w) (rate_limiter w)\<rparr>))) = Some r"
  show "only_slept w (snd r)"
  proof (cases "real_of_int n \<le> tokens (refill (clock w) (rate_limiter w))")
    case True
    with eq show ?thesis by (auto simp: only_slept_refl)
  next
    case False
    show ?thesis
    proof (cases "rate (rate_limiter w) = 0")
      case True
      with False eq show ?thesis by (auto simp: only_slept_refl)
    next
      case nz: False
      with False eq have "f n (sleep ((real_of_int n - tokens (refill (clock w) (rate_limiter w))) / rate (rate_limiter w))
                (w\<lparr>rate_limiter := refill (clock w) (rate_limiter w)\<rparr>)) = Some r"
        by simp
      from IH [OF this] show ?thesis by (rule only_slept_step)
    qed
  qed
qed

lemma acquire_trace:
  assumes "acquire n w = Some (r, w')"
  shows "\<exists>ds. trace w' = trace w @ [Lock] @ map Sleep ds @ [Unlock]"
proof -
  from assms obtain w1 where loop: "acquire_loop n (emit Lock w) = Some (r, w1)" and w': "w' = emit Unlock w1"
    by (auto simp: acquire_def split: option.splits)
  from acquire_loop_only_slept [OF loop] obtain ds where "trace w1 = trace (emit Lock w) @ map Sleep ds"
    by (auto simp: only_slept_def)
  with w' show ?thesis by auto
qed

lemma acquire_frame:
  assumes "acquire n w = Some (r, w')"
  shows "requests w' = requests w \<and> server w' = server w \<and> draws w' = draws w \<and> rnd w' = rnd w
     \<and> base_url w' = base_url w \<and> rate (rate_limiter w') = rate (rate_limiter w)
     \<and> capacity (rate_limiter w') = capacity (rate_limiter w)"
proof -
  from assms obtain w1 where loop: "acquire_loop n (emit Lock w) = Some (r, w1)" and w': "w' = emit Unlock w1"
    by (auto simp: acquire_def split: option.splits)
  from acquire_loop_only_slept [OF loop] w' show ?thesis
    by (simp add: only_slept_def)
qed

lemma sleeps_inside_lock:
  "ds \<noteq> [] \<Longrightarrow> \<not> sleeps_outside_lock held ([Lock] @ map Sleep ds @ [Unlock])"
  by (cases ds) simp_all

lemmas world_eval = test_world_def TokenBucket_def emit_def sleep_def refill_def take_tokens_def

subsection \<open>Token accounting\<close>

text \<open>
  C4. A call \<open>acquire n\<close> with \<open>1 \<le> n \<le> capacity\<close> on a bucket of positive rate first
  refills: the tokens become the old tokens plus elapsed time times rate, clamped to the
  capacity, and the time of the last update becomes the current time. If the refilled
  count is at least \<open>n\<close>, exactly \<open>n\<close> tokens are subtracted and the call returns without a
  sleep and without the clock moving. Otherwise the caller sleeps for \<open>d\<close>, the time the
  rate needs to bring the count up to \<open>n\<close>, and the loop runs again from the state after
  the sleep; that second pass finds exactly \<open>n\<close> tokens, takes them and returns.
\<close>

theorem acquire_refills_then_takes_or_waits:
  assumes n1: "1 \<le> n" and nc: "n \<le> capacity (rate_limiter w)" and r: "0 < rate (rate_limiter w)"
    and b: "b = refill (clock w) (rate_limiter w)"
    and d: "d = (real_of_int n - tokens b) / rate (rate_limiter w)"
  shows "tokens b = min (real_of_int (capacity (rate_limiter w)))
                      (tokens (rate_limiter w) + (clock w - last_update (rate_limiter w)) * rate (rate_limiter w))
       \<and> last_update b = clock w
       \<and> (real_of_int n \<le> tokens b \<longrightarrow>
            (\<exists>w'. acquire n w = Some (Inr (), w') \<and> rate_limiter w' = b\<lparr>tokens := tokens b - real_of_int n\<rparr>
                  \<and> clock w' = clock w \<and> trace w' = trace w @ [Lock, Unlock]))
       \<and> (tokens b < real_of_int n \<longrightarrow>
            0 < d \<and> tokens b + d * rate (rate_limiter w) = real_of_int n
            \<and> acquire_loop n (emit Lock w) = acquire_loop n (sleep d ((emit Lock w)\<lparr>rate_limiter := b\<rparr>))
            \<and> (\<exists>w'. acquire n w = Some (Inr (), w') \<and> rate_limiter w' = b\<lparr>tokens := 0, last_update := clock w + d\<rparr>
                  \<and> clock w' = clock w + d \<and> trace w' = trace w @ [Lock, Sleep d, Unlock]))"
proof (intro conjI impI)
  show "tokens b = min (real_of_int (capacity (rate_limiter w)))
                      (tokens (rate_limiter w) + (clock w - last_update (rate_limiter w)) * rate (rate_limiter w))"
    by (simp add: b tokens_refill)
  show "last_update b = clock w" by (simp add: b)
next
  assume "real_of_int n \<le> tokens b"
  then show "\<exists>w'. acquire n w = Some (Inr (), w') \<and> rate_limiter w' = b\<lparr>tokens := tokens b - real_of_int n\<rparr>
                  \<and> clock w' = clock w \<and> trace w' = trace w @ [Lock, Unlock]"
    by (simp add: acquire_closed [OF r nc] b take_tokens_def)
next
  assume lt: "tokens b < real_of_int n"
  then show "0 < d" using r by (simp add: d)
  show "tokens b + d * rate (rate_limiter w) = real_of_int n" using r by (simp add: d)
  have "\<not> real_of_int n \<le> tokens (refill (clock (emit Lock w)) (rate_limiter (emit Lock w)))"
    using lt by (simp add: b)
  moreover have "rate (rate_limiter (emit Lock w)) \<noteq> 0" using r by simp
  ultimately show "acquire_loop n (emit Lock w) = acquire_loop n (sleep d ((emit Lock w)\<lparr>rate_limiter := b\<rparr>))"
    using acquire_loop_wait [of n "emit Lock w"] by (simp add: b d)
  from lt \<open>0 < d\<close> show "\<exists>w'. acquire n w = Some (Inr (), w') \<and> rate_limiter w' = b\<lparr>tokens := 0, last_update := clock w + d\<rparr>
                  \<and> clock w' = clock w + d \<and> trace w' = trace w @ [Lock, Sleep d, Unlock]"
    by (simp add: acquire_closed [OF r nc] b d)
qed

theorem acquire_refills_then_takes_or_waits_witness:
  "tokens (refill 0 (TokenBucket 10 10 0)) = 10
   \<and> (\<exists>w'. acquire 5 (test_world (TokenBucket 10 10 0) never_answers) = Some (Inr (), w')
          \<and> tokens (rate_limiter w') = 5 \<and> clock w' = 0 \<and> trace w' = [Lock, Unlock])
   \<and> (\<exists>w'. acquire 1 (test_world ((TokenBucket 10 10 0)\<lparr>tokens := 0\<rparr>) never_answers)
            = Some (Inr (), w')
          \<and> tokens (rate_limiter w') = 0 \<and> clock w' = 1 / 10
          \<and> trace w' = [Lock, Sleep (1 / 10), Unlock])"
proof -
  let ?w = "test_world (TokenBucket 10 10 0) never_answers"
  let ?v = "test_world ((TokenBucket 10 10 0)\<lparr>tokens := 0\<rparr>) never_answers"
  have "1 \<le> (5::int)" and "5 \<le> capacity (rate_limiter ?w)" and "0 < rate (rate_limiter ?w)"
    by (simp_all add: world_eval)
  from acquire_refills_then_takes_or_waits [OF this refl refl]
  have full: "tokens (refill 0 (TokenBucket 10 10 0)) = 10
      \<and> (\<exists>w'. acquire 5 ?w = Some (Inr (), w')
             \<and> tokens (rate_limiter w') = 5 \<and> clock w' = 0 \<and> trace w' = [Lock, Unlock])"
    by (auto simp: world_eval)
  have "1 \<le> (1::int)" and "1 \<le> capacity (rate_limiter ?v)" and "0 < rate (rate_limiter ?v)"
    by (simp_all add: world_eval)
  from acquire_refills_then_takes_or_waits [OF this refl refl]
  have empty: "\<exists>w'. acquire 1 ?v = Some (Inr (), w')
      \<and> tokens (rate_limiter w') = 0 \<and> clock w' = 1 / 10 \<and> trace w' = [Lock, Sleep (1 / 10), Unlock]"
    by (auto simp: world_eval)
  from full empty show ?thesis by blast
qed

subsection \<open>A request for more than the capacity\<close>

text \<open>
  C6 as stated fails: the bucket of the tests, capacity 10, asked for 11 tokens, neither
  raises nor returns.
\<close>

theorem acquire_beyond_capacity_counterexample:
  "acquire 11 (test_world (TokenBucket 10 10 0) never_answers) = None"
  by (rule acquire_never) (simp_all add: world_eval)

text \<open>
  C6, amended. A call \<open>acquire n\<close> with \<open>n\<close> greater than the capacity, on a bucket of
  positive rate, never returns: no error is raised, and each pass of the loop finds fewer
  than \<open>n\<close> tokens and computes a positive time to sleep. A run of bucket operations that
  contains such a call does not get past it.
\<close>

theorem acquire_beyond_capacity_never_returns:
  assumes "capacity (rate_limiter w) < n" and "0 < rate (rate_limiter w)"
  shows "acquire n w = None \<and> apply_op (Acquire n) w = None
      \<and> 0 < (real_of_int n - tokens (refill (clock w) (rate_limiter w))) / rate (rate_limiter w)"
proof -
  have none: "acquire n w = None" using assms by (simp add: acquire_never)
  have "real_of_int (capacity (rate_limiter w)) < real_of_int n" using assms by simp
  then have "tokens (refill (clock w) (rate_limiter w)) < real_of_int n"
    by (simp add: tokens_refill min_less_iff_disj)
  with assms none show ?thesis by simp
qed

theorem acquire_beyond_capacity_never_returns_witness:
  "capacity (rate_limiter (test_world (TokenBucket 10 10 0) never_answers)) < 11
   \<and> 0 < rate (rate_limiter (test_world (TokenBucket 10 10 0) never_answers))
   \<and> apply_op (Acquire 11) (test_world (TokenBucket 10 10 0) never_answers) = None"
proof -
  let ?w = "test_world (TokenBucket 10 10 0) never_answers"
  have h: "capacity (rate_limiter ?w) < 11" "0 < rate (rate_limiter ?w)"
    by (simp_all add: world_eval)
  from acquire_beyond_capacity_never_returns [OF h] h show ?thesis by simp
qed

subsection \<open>Sleeping and the lock\<close>

text \<open>
  C8 as stated fails: with the bucket of the tests emptied by \<open>acquire 10\<close>, the call
  \<open>acquire 1\<close> sleeps a tenth of a second between taking the lock and releasing it.
\<close>

theorem sleep_outside_lock_counterexample:
  "map_option trace (run [Acquire 10, Acquire 1] (test_world (TokenBucket 10 10 0) never_answers))
     = Some [Lock, Unlock, Lock, Sleep (1 / 10), Unlock]
   \<and> \<not> sleeps_outside_lock False [Lock, Unlock, Lock, Sleep (1 / 10), Unlock]"
proof -
  let ?w = "test_world (TokenBucket 10 10 0) never_answers"
  have a: "acquire 10 ?w = Some (Inr (), emit Unlock ((emit Lock ?w)\<lparr>rate_limiter := take_tokens 10 (refill 0 (TokenBucket 10 10 0))\<rparr>))"
    by (subst acquire_closed) (simp_all add: world_eval)
  let ?w1 = "emit Unlock ((emit Lock ?w)\<lparr>rate_limiter := take_tokens 10 (refill 0 (TokenBucket 10 10 0))\<rparr>)"
  have b: "map_option (trace \<circ> snd) (acquire 1 ?w1) = Some [Lock, Unlock, Lock, Sleep (1 / 10), Unlock]"
    by (subst acquire_closed) (simp_all add: world_eval)
  from a b show ?thesis by (auto simp: map_option_case split: option.splits)
qed

text \<open>
  C8, amended. A caller of \<open>acquire\<close> that must wait for the refill sleeps inside the
  section that the lock protects: what a returning call adds to the trace is the taking of
  the lock, then its sleeps, then the release, so every sleep of the call happens while
  the lock is held, and the lock is released only when the call returns.
\<close>

theorem acquire_sleeps_inside_lock:
  assumes "acquire n w = Some (r, w')"
  shows "\<exists>ds. trace w' = trace w @ [Lock] @ map Sleep ds @ [Unlock]
            \<and> (ds \<noteq> [] \<longrightarrow> \<not> sleeps_outside_lock held ([Lock] @ map Sleep ds @ [Unlock]))"
  using acquire_trace [OF assms] sleeps_inside_lock by blast

theorem acquire_sleeps_inside_lock_witness:
  "\<exists>r w' ds. acquire 1 (test_world ((TokenBucket 10 10 0)\<lparr>tokens := 0\<rparr>) never_answers) = Some (r, w')
     \<and> trace w' = [Lock] @ map Sleep ds @ [Unlock] \<and> ds \<noteq> []
     \<and> \<not> sleeps_outside_lock False ([Lock] @ map Sleep ds @ [Unlock])"
proof -
  let ?w = "test_world ((TokenBucket 10 10 0)\<lparr>tokens := 0\<rparr>) never_answers"
  let ?w' = "emit Unlock ((sleep (1 / 10) (emit Lock ?w))\<lparr>rate_limiter :=
             (refill 0 ((TokenBucket 10 10 0)\<lparr>tokens := 0\<rparr>))\<lparr>tokens := 0, last_update := 1 / 10\<rparr>\<rparr>)"
  have a: "acquire 1 ?w = Some (Inr (), ?w')"
    by (subst acquire_closed) (simp_all add: world_eval)
  from acquire_sleeps_inside_lock [OF a, of False] obtain ds
    where tr: "trace ?w' = trace ?w @ [Lock] @ map Sleep ds @ [Unlock]"
      and inside: "ds \<noteq> [] \<longrightarrow> \<not> sleeps_outside_lock False ([Lock] @ map Sleep ds @ [Unlock])"
    by blast
  have "trace ?w = []" by (simp add: world_eval)
  moreover have "trace ?w' = [Lock, Sleep (1 / 10), Unlock]" by (simp add: world_eval)
  ultimately have "ds \<noteq> []" using tr by auto
  with a tr inside \<open>trace ?w = []\<close> show ?thesis by (intro exI [of _ "Inr ()"] exI [of _ ?w'] exI [of _ ds]) simp
qed

subsection \<open>The bucket stays within its capacity\<close>

lemma acquire_keeps_within:
  assumes r: "0 < rate (rate_limiter w)" and n0: "0 \<le> n" and nc: "n \<le> capacity (rate_limiter w)"
    and inv: "within_capacity (rate_limiter w)" and mono: "last_update (rate_limiter w) \<le> clock w"
  shows "\<exists>w'. acquire n w = Some (Inr (), w')
      \<and> rate (rate_limiter w') = rate (rate_limiter w)
      \<and> capacity (rate_limiter w') = capacity (rate_limiter w)
      \<and> within_capacity (rate_limiter w') \<and> last_update (rate_limiter w') = clock w'
      \<and> tokens (rate_limiter w) \<le> tokens (rate_limiter w') + real_of_int n
      \<and> tokens (rate_limiter w') + real_of_int n \<le> real_of_int (capacity (rate_limiter w))
      \<and> tokens (rate_limiter w') + real_of_int n
          \<le> tokens (rate_limiter w) + (clock w' - last_update (rate_limiter w)) * rate (rate_limiter w)"
proof -
  define t where "t = tokens (rate_limiter w)"
  define e where "e = (clock w - last_update (rate_limiter w)) * rate (rate_limiter w)"
  define c where "c = real_of_int (capacity (rate_limiter w))"
  define tb where "tb = tokens (refill (clock w) (rate_limiter w))"
  define d where "d = (real_of_int n - tb) / rate (rate_limiter w)"
  have tb: "tb = min c (t + e)" by (simp add: tb_def tokens_refill c_def t_def e_def)
  have e0: "0 \<le> e" using r mono by (simp add: e_def)
  have tc: "0 \<le> t" "t \<le> c" using inv by (simp_all add: within_capacity_def t_def c_def)
  have nc': "real_of_int n \<le> c" "0 \<le> real_of_int n" using nc n0 by (simp_all add: c_def)
  have ttb: "t \<le> tb" "tb \<le> c" "tb \<le> t + e" using e0 tc by (simp_all add: tb)
  show ?thesis
  proof (cases "real_of_int n \<le> tb")
    case True
    then have "acquire n w = Some (Inr (), emit Unlock ((emit Lock w)\<lparr>rate_limiter := take_tokens n (refill (clock w) (rate_limiter w))\<rparr>))"
      by (simp add: acquire_closed [OF r nc] tb_def)
    moreover have "tokens (take_tokens n (refill (clock w) (rate_limiter w))) = tb - real_of_int n"
      by (simp add: tb_def)
    ultimately show ?thesis using True ttb nc'
      by (simp add: within_capacity_def t_def [symmetric] c_def [symmetric] e_def [symmetric])
  next
    case False
    then have a: "acquire n w = Some (Inr (), emit Unlock ((sleep d (emit Lock w))
        \<lparr>rate_limiter := (refill (clock w) (rate_limiter w))\<lparr>tokens := 0, last_update := clock w + d\<rparr>\<rparr>))"
      by (simp add: acquire_closed [OF r nc] tb_def d_def)
    have dpos: "0 < d" using False r by (simp add: d_def)
    have "d * rate (rate_limiter w) = real_of_int n - tb" using r by (simp add: d_def)
    then have "real_of_int n = tb + d * rate (rate_limiter w)" by simp
    also have "\<dots> \<le> t + e + d * rate (rate_limiter w)" using ttb by simp
    also have "\<dots> = t + (clock w + d - last_update (rate_limiter w)) * rate (rate_limiter w)"
      by (simp add: e_def algebra_simps)
    finally have bound: "real_of_int n \<le> t + (clock w + d - last_update (rate_limiter w)) * rate (rate_limiter w)" .
    have "t \<le> real_of_int n" using False ttb by simp
    with a dpos bound nc' show ?thesis
      by (simp add: within_capacity_def t_def [symmetric] c_def [symmetric] max_def)
  qed
qed

lemma apply_op_keeps_within:
  assumes r: "0 < rate (rate_limiter w)" and v: "valid_op (capacity (rate_limiter w)) x"
    and inv: "within_capacity (rate_limiter w)" and mono: "last_update (rate_limiter w) \<le> clock w"
  shows "\<exists>w'. apply_op x w = Some w'
      \<and> rate (rate_limiter w') = rate (rate_limiter w)
      \<and> capacity (rate_limiter w') = capacity (rate_limiter w)
      \<and> within_capacity (rate_limiter w') \<and> last_update (rate_limiter w') \<le> clock w'"
proof (cases x)
  case (Acquire n)
  with v have "0 \<le> n" "n \<le> capacity (rate_limiter w)" by simp_all
  from acquire_keeps_within [OF r this inv mono] Acquire show ?thesis by auto
next
  case (Idle d)
  with v inv mono show ?thesis by simp
qed

lemma run_keeps_within:
  assumes "0 < rate (rate_limiter w)" and "list_all (valid_op (capacity (rate_limiter w))) ops"
    and "within_capacity (rate_limiter w)" and "last_update (rate_limiter w) \<le> clock w"
  shows "\<exists>w'. run ops w = Some w'
      \<and> rate (rate_limiter w') = rate (rate_limiter w)
      \<and> capacity (rate_limiter w') = capacity (rate_limiter w)
      \<and> within_capacity (rate_limiter w') \<and> last_update (rate_limiter w') \<le> clock w'"
  using assms
proof (induction ops arbitrary: w)
  case Nil
  then show ?case by simp
next
  case (Cons x xs)
  from Cons.prems have v: "valid_op (capacity (rate_limiter w)) x"
    and vs: "list_all (valid_op (capacity (rate_limiter w))) xs" by simp_all
  from apply_op_keeps_within [OF Cons.prems(1) v Cons.prems(3) Cons.prems(4)]
  obtain w1 where step: "apply_op x w = Some w1"
    and r1: "rate (rate_limiter w1) = rate (rate_limiter w)"
    and c1: "capacity (rate_limiter w1) = capacity (rate_limiter w)"
    and i1: "within_capacity (rate_limiter w1)" and m1: "last_update (rate_limiter w1) \<le> clock w1"
    by blast
  have "0 < rate (rate_limiter w1)" using Cons.prems(1) r1 by simp
  moreover have "list_all (valid_op (capacity (rate_limiter w1))) xs" using vs c1 by simp
  ultimately obtain w' where "run xs w1 = Some w'"
    and "rate (rate_limiter w') = rate (rate_limiter w1)"
    and "capacity (rate_limiter w') = capacity (rate_limiter w1)"
    and "within_capacity (rate_limiter w')" and "last_update (rate_limiter w') \<le> clock w'"
    using Cons.IH [OF _ _ i1 m1] by blast
  with step r1 c1 show ?case by simp
qed

text \<open>
  C5. From a bucket as its constructor leaves it, after any sequence of calls
  \<open>acquire n\<close> with \<open>0 \<le> n \<le> capacity\<close> and of idle times, every call has returned and
  the tokens lie between 0 and the capacity. In the state reached, idle time alone
  changes nothing in the bucket, and one more \<open>acquire n\<close> moves the count in two steps
  only: up by the refill, to a level that is at most the capacity and at most the old
  count plus elapsed time times rate, and then down from that level by exactly \<open>n\<close>.
\<close>

theorem tokens_stay_within_capacity:
  assumes r: "0 < r" and c: "0 \<le> c" and fresh: "rate_limiter w = TokenBucket r c (clock w)"
    and ops: "list_all (valid_op c) ops"
  shows "\<exists>w'. run ops w = Some w'
      \<and> 0 \<le> tokens (rate_limiter w') \<and> tokens (rate_limiter w') \<le> real_of_int c
      \<and> capacity (rate_limiter w') = c
      \<and> (\<forall>d. map_option rate_limiter (apply_op (Idle d) w') = Some (rate_limiter w'))
      \<and> (\<forall>n. 0 \<le> n \<and> n \<le> c \<longrightarrow>
            (\<exists>w''. apply_op (Acquire n) w' = Some w''
               \<and> tokens (rate_limiter w') \<le> tokens (rate_limiter w'') + real_of_int n
               \<and> tokens (rate_limiter w'') + real_of_int n \<le> real_of_int c
               \<and> tokens (rate_limiter w'') + real_of_int n
                   \<le> tokens (rate_limiter w') + (clock w'' - last_update (rate_limiter w')) * r))"
proof -
  have "0 < rate (rate_limiter w)" and "list_all (valid_op (capacity (rate_limiter w))) ops"
    and "within_capacity (rate_limiter w)" and "last_update (rate_limiter w) \<le> clock w"
    using r c ops by (simp_all add: fresh TokenBucket_def within_capacity_def)
  from run_keeps_within [OF this] obtain w' where run: "run ops w = Some w'"
    and r': "rate (rate_limiter w') = r" and c': "capacity (rate_limiter w') = c"
    and inv: "within_capacity (rate_limiter w')" and mono: "last_update (rate_limiter w') \<le> clock w'"
    by (auto simp: fresh TokenBucket_def)
  have more: "\<exists>w''. apply_op (Acquire n) w' = Some w''
               \<and> tokens (rate_limiter w') \<le> tokens (rate_limiter w'') + real_of_int n
               \<and> tokens (rate_limiter w'') + real_of_int n \<le> real_of_int c
               \<and> tokens (rate_limiter w'') + real_of_int n
                   \<le> tokens (rate_limiter w') + (clock w'' - last_update (rate_limiter w')) * r"
    if "0 \<le> n \<and> n \<le> c" for n
  proof -
    have "0 < rate (rate_limiter w')" "0 \<le> n" "n \<le> capacity (rate_limiter w')"
      using that r r' c' by simp_all
    from acquire_keeps_within [OF this inv mono] show ?thesis
      by (auto simp: r' c')
  qed
  from run c' inv more show ?thesis
    by (simp add: within_capacity_def)
qed

theorem tokens_stay_within_capacity_witness:
  "\<exists>w'. run [Acquire 10, Idle (1 / 2), Acquire 1] (test_world (TokenBucket 10 10 0) never_answers) = Some w'
      \<and> 0 \<le> tokens (rate_limiter w') \<and> tokens (rate_limiter w') \<le> 10"
proof -
  let ?w = "test_world (TokenBucket 10 10 0) never_answers"
  have "(0::real) < 10" and "(0::int) \<le> 10" and "rate_limiter ?w = TokenBucket 10 10 (clock ?w)"
    and "list_all (valid_op 10) [Acquire 10, Idle (1 / 2), Acquire 1]"
    by (simp_all add: test_world_def)
  from tokens_stay_within_capacity [OF this] show ?thesis by auto
qed

section \<open>Properties of a request\<close>

lemma transport_eq:
  "transport m url w = (server w (requests w) m url, emit (Call m url) (w\<lparr>requests := Suc (requests w)\<rparr>))"
  by (simp add: transport_def)

lemma transport_fields [simp]:
  "requests (snd (transport m url w)) = Suc (requests w)"
  "server (snd (transport m url w)) = server w"
  "rnd (snd (transport m url w)) = rnd w"
  "draws (snd (transport m url w)) = draws w"
  "base_url (snd (transport m url w)) = base_url w"
  "rate_limiter (snd (transport m url w)) = rate_limiter w"
  "trace (snd (transport m url w)) = trace w @ [Call m url]"
  "clock (snd (transport m url w)) = clock w"
  by (simp_all add: transport_eq)

lemma transport_after_acquire:
  assumes "acquire n w = Some (r, w1)"
  shows "transport m url w1 = (server w (requests w) m url, snd (transport m url w1))"
  using acquire_frame [OF assms] by (simp add: transport_eq)

lemma only_calls_simps [simp]:
  "only_calls m url []"
  "only_calls m url (es @ es') \<longleftrightarrow> only_calls m url es \<and> only_calls m url es'"
  "only_calls m url (Lock # es) \<longleftrightarrow> only_calls m url es"
  "only_calls m url (Unlock # es) \<longleftrightarrow> only_calls m url es"
  "only_calls m url (Sleep d # es) \<longleftrightarrow> only_calls m url es"
  "only_calls m url (Yield # es) \<longleftrightarrow> only_calls m url es"
  "only_calls m url (Call m' url' # es) \<longleftrightarrow> m' = m \<and> url' = url \<and> only_calls m url es"
  by (simp_all add: only_calls_def)

lemma only_calls_sleeps [simp]: "only_calls m url (map Sleep ds)"
  by (induction ds) simp_all

text \<open>The backoff: below attempt 1024 it draws once and sleeps, from 1024 on it raises.\<close>

lemma backoff_small:
  "a < 1024 \<Longrightarrow>
   backoff a w =
     (None, sleep (min (1 * 2 ^ a) 60
                   + min (1 * 2 ^ a) 60 * (- 0.25 + (0.25 - (- 0.25)) * rnd w (draws w)))
              (w\<lparr>draws := Suc (draws w)\<rparr>))"
  by (simp add: backoff_def uniform_def Let_def)

lemma backoff_big: "1024 \<le> a \<Longrightarrow> backoff a w = (Some (Raised OverflowError), w)"
  by (simp add: backoff_def)

lemma backoff_result:
  "fst (backoff a w) = (if 1024 \<le> a then Some (Raised OverflowError) else None)"
  by (simp add: backoff_def uniform_def Let_def)

lemma backoff_fields [simp]:
  "requests (snd (backoff a w)) = requests w"
  "server (snd (backoff a w)) = server w"
  "rnd (snd (backoff a w)) = rnd w"
  "base_url (snd (backoff a w)) = base_url w"
  "rate_limiter (snd (backoff a w)) = rate_limiter w"
  by (simp_all add: backoff_def uniform_def Let_def)

lemma backoff_trace:
  "trace (snd (backoff a w)) = trace w \<or> (\<exists>d. trace (snd (backoff a w)) = trace w @ [Sleep d])"
  by (simp add: backoff_def uniform_def Let_def)

text \<open>A sleep on a Python float.\<close>

lemma asyncio_sleep_fields [simp]:
  "requests (snd (asyncio_sleep x w)) = requests w"
  "server (snd (asyncio_sleep x w)) = server w"
  "rnd (snd (asyncio_sleep x w)) = rnd w"
  "draws (snd (asyncio_sleep x w)) = draws w"
  "base_url (snd (asyncio_sleep x w)) = base_url w"
  "rate_limiter (snd (asyncio_sleep x w)) = rate_limiter w"
  by (simp_all add: asyncio_sleep_def split: pyfloat.splits nan_delay.splits)

lemma asyncio_sleep_trace:
  "trace (snd (asyncio_sleep x w)) = trace w
   \<or> (\<exists>d. trace (snd (asyncio_sleep x w)) = trace w @ [Sleep d])
   \<or> trace (snd (asyncio_sleep x w)) = trace w @ [Yield]"
  by (simp add: asyncio_sleep_def split: pyfloat.splits nan_delay.splits)

lemma asyncio_sleep_result:
  "fst (asyncio_sleep x w) = None \<or> fst (asyncio_sleep x w) = Some Hang
   \<or> fst (asyncio_sleep x w) = Some (Raised ValueError)"
  by (simp add: asyncio_sleep_def split: pyfloat.splits nan_delay.splits)

text \<open>One attempt, once the bucket has let the caller through.\<close>

lemma attempt_step_admitted:
  assumes adm: "acquire 1 w = Some (Inr (), w1)" and tr: "transport m url w1 = (out, w2)"
  shows "attempt_step m url N a w =
     (case out of
        TimedOut \<Rightarrow>
          if int a = N - 1 then (Some (Raised TimeoutException), w2)
          else backoff a w2
      | Broken \<Rightarrow> (Some (Raised TransportError), w2)
      | Responded r \<Rightarrow>
          if status_code r = 429
          then (case py_float (case headers r ''Retry-After'' of None \<Rightarrow> ''60'' | Some v \<Rightarrow> v) of
                  None \<Rightarrow> (Some (Raised ValueError), w2)
                | Some t \<Rightarrow> asyncio_sleep t w2)
          else if \<not> is_success (status_code r)
          then (if 400 \<le> status_code r \<and> status_code r < 500 \<and> status_code r \<noteq> 429
                then (Some (Raised (HTTPStatusError (status_code r) (body_text r))), w2)
                else if int a = N - 1
                then (Some (Raised (HTTPStatusError (status_code r) (body_text r))), w2)
                else backoff a w2)
          else (case body_json r of
                  None \<Rightarrow> (Some (Raised JSONDecodeError), w2)
                | Some j \<Rightarrow> (Some (Returned j), w2)))"
  by (simp add: attempt_step_def adm tr)

text \<open>
  Where an admitted attempt leaves the world: after its transport call, or after the
  backoff or the sleep that follows the call.
\<close>

lemma attempt_step_world:
  assumes adm: "acquire 1 w = Some (Inr (), w1)"
  shows "snd (attempt_step m url N a w) = snd (transport m url w1)
      \<or> snd (attempt_step m url N a w) = snd (backoff a (snd (transport m url w1)))
      \<or> (\<exists>x. snd (attempt_step m url N a w) = snd (asyncio_sleep x (snd (transport m url w1))))"
  by (auto simp: attempt_step_admitted [OF adm transport_after_acquire [OF adm]]
      split: outcome.splits option.splits)

lemma same_setup_refl [simp]: "same_setup w w"
  by (simp add: same_setup_def)

lemma same_setup_trans: "same_setup w w1 \<Longrightarrow> same_setup w1 w2 \<Longrightarrow> same_setup w w2"
  by (simp add: same_setup_def)

lemma acquire_same_setup: "acquire n w = Some (r, w') \<Longrightarrow> same_setup w w'"
  using acquire_frame [of n w r w'] by (simp add: same_setup_def)

lemma transport_same_setup [simp]: "same_setup w (snd (transport m url w))"
  by (simp add: same_setup_def)

lemma backoff_same_setup [simp]: "same_setup w (snd (backoff a w))"
  by (simp add: same_setup_def)

lemma asyncio_sleep_same_setup [simp]: "same_setup w (snd (asyncio_sleep x w))"
  by (simp add: same_setup_def)

lemma sleep_same_setup [simp]: "same_setup w (sleep d w)"
  by (simp add: same_setup_def)

text \<open>An attempt makes at most one transport call, whatever comes of it.\<close>

lemma attempt_step_calls:
  "requests (snd (attempt_step m url N a w)) \<le> Suc (requests w)
   \<and> same_setup w (snd (attempt_step m url N a w))"
proof (cases "acquire 1 w")
  case None
  then show ?thesis by (simp add: attempt_step_def)
next
  case (Some rw)
  obtain r w1 where rw: "rw = (r, w1)" by (cases rw)
  from acquire_frame [of 1 w r w1] Some rw have req: "requests w1 = requests w" by simp
  from acquire_same_setup [of 1 w r w1] Some rw have ss: "same_setup w w1" by simp
  show ?thesis
  proof (cases r)
    case (Inl e)
    with Some rw req ss show ?thesis by (simp add: attempt_step_def)
  next
    case (Inr u)
    with Some rw have adm: "acquire 1 w = Some (Inr (), w1)" by simp
    let ?w2 = "snd (transport m url w1)"
    have t: "same_setup w ?w2"
      using ss transport_same_setup by (rule same_setup_trans)
    have b: "same_setup w (snd (backoff a ?w2))"
      using t backoff_same_setup by (rule same_setup_trans)
    have s: "same_setup w (snd (asyncio_sleep x ?w2))" for x
      using t asyncio_sleep_same_setup by (rule same_setup_trans)
    from attempt_step_world [OF adm, of m url N a] req t b s show ?thesis by auto
  qed
qed

lemma request_loop_calls:
  "requests (snd (request_loop m url N as w)) \<le> requests w + length as
   \<and> same_setup w (snd (request_loop m url N as w))"
proof (induction as arbitrary: w)
  case Nil
  then show ?case by simp
next
  case (Cons a as)
  obtain r w1 where st: "attempt_step m url N a w = (r, w1)" by (cases "attempt_step m url N a w")
  from attempt_step_calls [of m url N a w] st
  have one: "requests w1 \<le> Suc (requests w)" and ss: "same_setup w w1" by simp_all
  show ?case
  proof (cases r)
    case None
    from Cons.IH [of w1] have "requests (snd (request_loop m url N as w1)) \<le> requests w1 + length as"
      and "same_setup w1 (snd (request_loop m url N as w1))" by simp_all
    with one ss None st show ?thesis by (auto intro: same_setup_trans)
  next
    case (Some res)
    with st one ss show ?thesis by simp
  qed
qed

subsection \<open>The retry ceiling\<close>

lemma admits_acquire:
  assumes "admits (rate_limiter w)"
  shows "\<exists>w1. acquire 1 w = Some (Inr (), w1)"
proof -
  from assms have "0 < rate (rate_limiter w)" and "1 \<le> capacity (rate_limiter w)"
    by (simp_all add: admits_def)
  from acquire_closed [OF this] show ?thesis by simp
qed

lemma same_setup_admits: "same_setup w w' \<Longrightarrow> admits (rate_limiter w) \<Longrightarrow> admits (rate_limiter w')"
  by (simp add: same_setup_def admits_def)

lemma attempt_step_retryable:
  assumes adm: "admits (rate_limiter w)" and out: "retryable (server w (requests w) m url)"
  shows "\<exists>w'. attempt_step m url N a w =
            (if int a = N - 1 then Some (Raised (terminal_error (server w (requests w) m url)))
             else if 1024 \<le> a then Some (Raised OverflowError) else None, w')
          \<and> requests w' = Suc (requests w) \<and> same_setup w w'
          \<and> (int a \<noteq> N - 1 \<and> 1024 \<le> a \<longrightarrow> last (trace w') = Call m url)"
proof -
  from admits_acquire [OF adm] obtain w1 where a1: "acquire 1 w = Some (Inr (), w1)" by blast
  from acquire_frame [OF a1] have req: "requests w1 = requests w" by simp
  let ?w2 = "snd (transport m url w1)"
  have ss: "same_setup w ?w2"
    using acquire_same_setup [OF a1] transport_same_setup by (rule same_setup_trans)
  have ssb: "same_setup w (snd (backoff a ?w2))"
    using ss backoff_same_setup by (rule same_setup_trans)
  obtain w3 where bo: "backoff a ?w2 = (if 1024 \<le> a then Some (Raised OverflowError) else None, w3)"
    using backoff_result [of a ?w2] by (cases "backoff a ?w2") simp
  from bo have w3: "w3 = snd (backoff a ?w2)" by simp
  have req3: "requests w3 = Suc (requests w)" using req by (simp add: w3)
  have ss3: "same_setup w w3" using ssb by (simp add: w3)
  have tr3: "1024 \<le> a \<longrightarrow> last (trace w3) = Call m url" by (simp add: w3 backoff_big)
  have "attempt_step m url N a w =
      (if int a = N - 1 then (Some (Raised (terminal_error (server w (requests w) m url))), ?w2)
       else backoff a ?w2)"
  proof (cases "server w (requests w) m url")
    case TimedOut
    then show ?thesis
      using attempt_step_admitted [OF a1 transport_after_acquire [OF a1], of m url N a]
      by (simp add: terminal_error_def)
  next
    case Broken
    with out show ?thesis by (simp add: retryable_def)
  next
    case (Responded r)
    with out have "500 \<le> status_code r" "status_code r \<le> 599" by (simp_all add: retryable_def)
    then have "status_code r \<noteq> 429" "\<not> is_success (status_code r)" "\<not> status_code r < 500"
      by (simp_all add: is_success_def)
    with Responded show ?thesis
      using attempt_step_admitted [OF a1 transport_after_acquire [OF a1], of m url N a]
      by (simp add: terminal_error_def)
  qed
  then show ?thesis
  proof (cases "int a = N - 1")
    case True
    with \<open>attempt_step m url N a w = _\<close> req ss show ?thesis by simp
  next
    case False
    with \<open>attempt_step m url N a w = _\<close> have "attempt_step m url N a w = backoff a ?w2" by simp
    with bo False req3 ss3 tr3 show ?thesis by simp
  qed
qed

text \<open>Up to 1025 attempts, a run of failures that are all retried ends with the last one.\<close>

lemma request_loop_retryable:
  assumes "admits (rate_limiter w)" and "\<forall>k. retryable (server w k m url)" and "a < nat N"
    and "nat N \<le> 1025"
  shows "\<exists>w'. request_loop m url N [a..<nat N] w =
            (Raised (terminal_error (server w (requests w + (nat N - Suc a)) m url)), w')
          \<and> requests w' = requests w + (nat N - a)"
  using assms
proof (induction "nat N - Suc a" arbitrary: a w)
  case 0
  then have last: "int a = N - 1" and list: "[a..<nat N] = [a]" by (simp_all add: upt_rec)
  from "0.prems" have "retryable (server w (requests w) m url)" by simp
  from attempt_step_retryable [OF "0.prems"(1) this, of N a] last obtain w'
    where "attempt_step m url N a w = (Some (Raised (terminal_error (server w (requests w) m url))), w')"
      and "requests w' = Suc (requests w)" by auto
  with 0 list show ?case by simp
next
  case (Suc k)
  then have more: "int a \<noteq> N - 1" and next_lt: "Suc a < nat N" and k: "k = nat N - Suc (Suc a)"
    and list: "[a..<nat N] = a # [Suc a..<nat N]" by (simp_all add: upt_rec)
  from next_lt Suc.prems(4) have small: "\<not> 1024 \<le> a" by simp
  from Suc.prems have "retryable (server w (requests w) m url)" by simp
  from attempt_step_retryable [OF Suc.prems(1) this, of N a] more small obtain w1
    where st: "attempt_step m url N a w = (None, w1)"
      and req: "requests w1 = Suc (requests w)" and ss: "same_setup w w1" by auto
  have srv: "server w1 = server w" using ss by (simp add: same_setup_def)
  have "admits (rate_limiter w1)" using ss Suc.prems(1) by (rule same_setup_admits)
  moreover have "\<forall>k. retryable (server w1 k m url)" using Suc.prems(2) srv by simp
  ultimately obtain w' where "request_loop m url N [Suc a..<nat N] w1 =
            (Raised (terminal_error (server w1 (requests w1 + (nat N - Suc (Suc a))) m url)), w')"
    and "requests w' = requests w1 + (nat N - Suc a)"
    using Suc.hyps(1) [OF k _ _ next_lt Suc.prems(4)] by blast
  moreover have "requests w1 + (nat N - Suc (Suc a)) = requests w + (nat N - Suc a)"
    using req next_lt by simp
  moreover have "requests w1 + (nat N - Suc a) = requests w + (nat N - a)"
    using req next_lt by simp
  ultimately show ?case using st list srv by simp
qed

text \<open>
  With more than 1025 attempts allowed, such a run ends in the backoff of attempt 1024,
  after 1025 transport calls.
\<close>

lemma request_loop_overflow:
  assumes "admits (rate_limiter w)" and "\<forall>k. retryable (server w k m url)" and "a \<le> 1024"
    and "1025 < nat N"
  shows "\<exists>w'. request_loop m url N [a..<nat N] w = (Raised OverflowError, w')
          \<and> requests w' = requests w + (1025 - a) \<and> last (trace w') = Call m url"
  using assms
proof (induction "1024 - a" arbitrary: a w)
  case 0
  then have a: "a = 1024" by simp
  with "0.prems" have more: "int a \<noteq> N - 1" and list: "[a..<nat N] = a # [Suc a..<nat N]"
    by (simp_all add: upt_rec)
  from "0.prems" have "retryable (server w (requests w) m url)" by simp
  from attempt_step_retryable [OF "0.prems"(1) this, of N a] more a obtain w'
    where "attempt_step m url N a w = (Some (Raised OverflowError), w')"
      and "requests w' = Suc (requests w)" and "last (trace w') = Call m url" by auto
  with a list show ?case by simp
next
  case (Suc k)
  then have small: "\<not> 1024 \<le> a" and next_le: "Suc a \<le> 1024" and k: "k = 1024 - Suc a" by simp_all
  with Suc.prems have more: "int a \<noteq> N - 1" and list: "[a..<nat N] = a # [Suc a..<nat N]"
    by (simp_all add: upt_rec)
  from Suc.prems have "retryable (server w (requests w) m url)" by simp
  from attempt_step_retryable [OF Suc.prems(1) this, of N a] more small obtain w1
    where st: "attempt_step m url N a w = (None, w1)"
      and req: "requests w1 = Suc (requests w)" and ss: "same_setup w w1" by auto
  have srv: "server w1 = server w" using ss by (simp add: same_setup_def)
  have "admits (rate_limiter w1)" using ss Suc.prems(1) by (rule same_setup_admits)
  moreover have "\<forall>k. retryable (server w1 k m url)" using Suc.prems(2) srv by simp
  ultimately obtain w' where "request_loop m url N [Suc a..<nat N] w1 = (Raised OverflowError, w')"
    and "requests w' = requests w1 + (1025 - Suc a)" and "last (trace w') = Call m url"
    using Suc.hyps(1) [OF k _ _ next_le Suc.prems(4)] by blast
  moreover have "requests w1 + (1025 - Suc a) = requests w + (1025 - a)"
    using req next_le by simp
  ultimately show ?case using st list by simp
qed

text \<open>
  C1 as stated fails: with \<open>max_retries = 1026\<close> and a transport that always times
  out, the request of the test client ends after 1025 calls with the
  \<^verbatim>\<open>OverflowError\<close> of the backoff of attempt 1024; the 1026th call is never made and
  no timeout is propagated.
\<close>

theorem nth_failure_counterexample:
  "fst (request ''GET'' ''/eapi/v1/chore'' 1026 (test_world (TokenBucket 100 100 0) never_answers))
     = Raised OverflowError
   \<and> requests (snd (request ''GET'' ''/eapi/v1/chore'' 1026
                     (test_world (TokenBucket 100 100 0) never_answers))) = 1025"
proof -
  let ?w = "test_world (TokenBucket 100 100 0) never_answers"
  have "admits (rate_limiter ?w)" by (simp add: test_world_def TokenBucket_def admits_def)
  moreover have "\<forall>k. retryable (server ?w k ''GET'' (base_url ?w @ ''/eapi/v1/chore''))"
    by (simp add: test_world_def retryable_def never_answers_def)
  moreover have "(0::nat) \<le> 1024" and "1025 < nat 1026" by simp_all
  ultimately obtain w' where "request_loop ''GET'' (base_url ?w @ ''/eapi/v1/chore'') 1026 [0..<nat 1026] ?w
      = (Raised OverflowError, w')" and "requests w' = requests ?w + (1025 - 0)"
    using request_loop_overflow [of ?w "''GET''" "base_url ?w @ ''/eapi/v1/chore''" 0 1026] by blast
  moreover have "requests ?w = 0" by (simp add: test_world_def)
  ultimately show ?thesis by (simp add: request_def)
qed

text \<open>
  C1, amended. A request with \<open>max_retries = N\<close> makes at most \<open>N\<close> transport calls (none
  when \<open>N\<close> is not positive), whatever the outcomes of the attempts are and whatever the
  bucket does. When the bucket admits the caller and every transport call times out or
  is answered with a status from 500 to 599, then for \<open>N\<close> up to 1025 the request makes
  exactly \<open>N\<close> calls and ends with the error of the \<open>N\<close>-th one: the timeout, or the
  status error carrying the status and the body of the \<open>N\<close>-th response. For a larger
  \<open>N\<close> it makes 1025 calls and ends with the \<^verbatim>\<open>OverflowError\<close> of the backoff.
\<close>

theorem at_most_max_retries_calls:
  "requests (snd (request m path N w)) \<le> requests w + nat N
   \<and> (0 < N \<and> N \<le> 1025 \<and> admits (rate_limiter w)
        \<and> (\<forall>k. retryable (server w k m (base_url w @ path))) \<longrightarrow>
        fst (request m path N w)
          = Raised (terminal_error (server w (requests w + nat N - 1) m (base_url w @ path)))
        \<and> requests (snd (request m path N w)) = requests w + nat N)
   \<and> (0 < N \<and> N \<le> 1025 \<and> admits (rate_limiter w)
        \<and> (\<forall>k. server w k m (base_url w @ path) = TimedOut) \<longrightarrow>
        fst (request m path N w) = Raised TimeoutException)
   \<and> (1025 < N \<and> admits (rate_limiter w)
        \<and> (\<forall>k. retryable (server w k m (base_url w @ path))) \<longrightarrow>
        fst (request m path N w) = Raised OverflowError
        \<and> requests (snd (request m path N w)) = requests w + 1025)"
proof -
  have ceiling: "requests (snd (request m path N w)) \<le> requests w + nat N"
    using request_loop_calls [of m "base_url w @ path" N "[0..<nat N]" w]
    by (simp add: request_def)
  have nth: "fst (request m path N w)
          = Raised (terminal_error (server w (requests w + nat N - 1) m (base_url w @ path)))
        \<and> requests (snd (request m path N w)) = requests w + nat N"
    if h: "0 < N \<and> N \<le> 1025 \<and> admits (rate_limiter w)
        \<and> (\<forall>k. retryable (server w k m (base_url w @ path)))"
  proof -
    from h have pos: "0 < nat N" and le: "nat N \<le> 1025" by linarith+
    from request_loop_retryable [OF _ _ pos le, of w m "base_url w @ path"] h
    obtain w' where "request m path N w =
            (Raised (terminal_error (server w (requests w + (nat N - Suc 0)) m (base_url w @ path))), w')"
      and "requests w' = requests w + nat N"
      by (auto simp: request_def)
    with pos show ?thesis by simp
  qed
  have timeout: "fst (request m path N w) = Raised TimeoutException"
    if h: "0 < N \<and> N \<le> 1025 \<and> admits (rate_limiter w)
        \<and> (\<forall>k. server w k m (base_url w @ path) = TimedOut)"
  proof -
    from h have "0 < N \<and> N \<le> 1025 \<and> admits (rate_limiter w)
        \<and> (\<forall>k. retryable (server w k m (base_url w @ path)))"
      by (simp add: retryable_def)
    from nth [OF this] h show ?thesis by (simp add: terminal_error_def)
  qed
  have overflow: "fst (request m path N w) = Raised OverflowError
        \<and> requests (snd (request m path N w)) = requests w + 1025"
    if h: "1025 < N \<and> admits (rate_limiter w)
        \<and> (\<forall>k. retryable (server w k m (base_url w @ path)))"
  proof -
    from h have big: "1025 < nat N" by linarith
    have z: "(0::nat) \<le> 1024" by simp
    from request_loop_overflow [OF _ _ z big, of w m "base_url w @ path"] h
    show ?thesis by (auto simp: request_def)
  qed
  from ceiling nth timeout overflow show ?thesis by blast
qed

theorem at_most_max_retries_calls_witness:
  "fst (request ''GET'' ''/eapi/v1/chore'' 3 (test_world (TokenBucket 100 100 0) never_answers))
     = Raised TimeoutException
   \<and> requests (snd (request ''GET'' ''/eapi/v1/chore'' 3 (test_world (TokenBucket 100 100 0) never_answers))) = 3
   \<and> fst (request ''GET'' ''/eapi/v1/chore'' 3 (test_world (TokenBucket 100 100 0) always_500))
     = Raised (HTTPStatusError 500 [])
   \<and> requests (snd (request ''GET'' ''/eapi/v1/chore'' 3 (test_world (TokenBucket 100 100 0) always_500))) = 3"
proof -
  let ?w = "test_world (TokenBucket 100 100 0) never_answers"
  let ?v = "test_world (TokenBucket 100 100 0) always_500"
  have w: "0 < (3::int) \<and> (3::int) \<le> 1025 \<and> admits (rate_limiter ?w)
      \<and> (\<forall>k. retryable (server ?w k ''GET'' (base_url ?w @ ''/eapi/v1/chore'')))"
    by (simp add: test_world_def TokenBucket_def admits_def retryable_def never_answers_def)
  have v: "0 < (3::int) \<and> (3::int) \<le> 1025 \<and> admits (rate_limiter ?v)
      \<and> (\<forall>k. retryable (server ?v k ''GET'' (base_url ?v @ ''/eapi/v1/chore'')))"
    by (simp add: test_world_def TokenBucket_def admits_def retryable_def always_500_def reply_def)
  have rw: "requests ?w = 0" and rv: "requests ?v = 0" by (simp_all add: test_world_def)
  have sw: "terminal_error (server ?w 2 ''GET'' (base_url ?w @ ''/eapi/v1/chore'')) = TimeoutException"
    by (simp add: test_world_def terminal_error_def never_answers_def)
  have sv: "terminal_error (server ?v 2 ''GET'' (base_url ?v @ ''/eapi/v1/chore'')) = HTTPStatusError 500 []"
    by (simp add: test_world_def terminal_error_def always_500_def reply_def)
  from at_most_max_retries_calls [of "''GET''" "''/eapi/v1/chore''" 3 ?w] w rw sw
  have "fst (request ''GET'' ''/eapi/v1/chore'' 3 ?w) = Raised TimeoutException
      \<and> requests (snd (request ''GET'' ''/eapi/v1/chore'' 3 ?w)) = 3"
    by simp
  moreover from at_most_max_retries_calls [of "''GET''" "''/eapi/v1/chore''" 3 ?v] v rv sv
  have "fst (request ''GET'' ''/eapi/v1/chore'' 3 ?v) = Raised (HTTPStatusError 500 [])
      \<and> requests (snd (request ''GET'' ''/eapi/v1/chore'' 3 ?v)) = 3"
    by simp
  ultimately show ?thesis by simp
qed

lemma request_first_attempt:
  assumes "0 < N"
  shows "request m path N w = request_loop m (base_url w @ path) N (0 # [1..<nat N]) w"
proof -
  from assms have "[0..<nat N] = 0 # [1..<nat N]" by (simp add: upt_rec)
  then show ?thesis by (simp add: request_def)
qed

lemma test_world_admits:
  "acquire 1 (test_world (TokenBucket 100 100 0) srv)
     = Some (Inr (), (test_world (TokenBucket 100 100 0) srv)
          \<lparr>rate_limiter := \<lparr>rate = 100, capacity = 100, tokens = 99, last_update = 0\<rparr>,
           trace := [Lock, Unlock]\<rparr>)"
  by (subst acquire_closed) (simp_all add: world_eval)

lemmas py_float_eval = py_float_def floatnumber_def exponent_def signed_def number_def
  digits_value_def strip_def is_space_def is_digit_def fold_case_def to_float_def

lemma py_float_60: "py_float ''60'' = Some (Finite 60)"
  by (simp add: py_float_eval)

lemma py_float_date: "py_float ''Wed, 21 Oct 2015 07:28:00 GMT'' = None"
  by (simp add: py_float_eval)

subsection \<open>Client errors\<close>

text \<open>
  C2. When the response of an attempt has a status from 400 to 499 other than 429, the
  request ends at once with the status error that carries the status code and the body
  of that response, whatever attempts were left: the attempt's own transport call is the
  last one. In particular a request whose first response is such a status makes exactly
  one transport call.
\<close>

theorem client_error_is_not_retried:
  assumes adm: "acquire 1 w = Some (Inr (), w1)"
    and resp: "server w (requests w) m url = Responded r"
    and lo: "400 \<le> status_code r" and hi: "status_code r \<le> 499" and no: "status_code r \<noteq> 429"
  shows "\<exists>w'. request_loop m url N (a # rest) w
                = (Raised (HTTPStatusError (status_code r) (body_text r)), w')
            \<and> requests w' = Suc (requests w) \<and> trace w' = trace w1 @ [Call m url]
            \<and> (0 < N \<and> url = base_url w @ path \<longrightarrow>
                 request m path N w = (Raised (HTTPStatusError (status_code r) (body_text r)), w'))"
proof -
  let ?w' = "snd (transport m url w1)"
  from lo hi have ns: "\<not> is_success (status_code r)" by (simp add: is_success_def)
  from acquire_frame [OF adm] have req: "requests w1 = requests w" by simp
  have st: "attempt_step m url N a w = (Some (Raised (HTTPStatusError (status_code r) (body_text r))), ?w')" for a
    using attempt_step_admitted [OF adm transport_after_acquire [OF adm], of m url N a] resp lo hi no ns
    by simp
  then have "request_loop m url N (a # rest) w = (Raised (HTTPStatusError (status_code r) (body_text r)), ?w')"
    by simp
  moreover have "request m path N w = (Raised (HTTPStatusError (status_code r) (body_text r)), ?w')"
    if "0 < N \<and> url = base_url w @ path"
    using that st [of 0] by (simp add: request_first_attempt)
  ultimately show ?thesis using req by (intro exI [of _ ?w']) simp
qed

theorem client_error_is_not_retried_witness:
  "\<exists>w'. request ''GET'' ''/eapi/v1/chore'' 3 (test_world (TokenBucket 100 100 0) not_found)
           = (Raised (HTTPStatusError 404 []), w')
       \<and> requests w' = 1
       \<and> trace w' = [Lock, Unlock, Call ''GET'' ''https://test.donetick.com/eapi/v1/chore'']"
proof -
  let ?w = "test_world (TokenBucket 100 100 0) not_found"
  let ?r = "\<lparr>status_code = 404, headers = (\<lambda>h. None), body_text = [],
             body_json = Some (JObj [(''error'', JStr ''Not found'')])\<rparr>"
  have resp: "server ?w (requests ?w) ''GET'' ''https://test.donetick.com/eapi/v1/chore'' = Responded ?r"
    by (simp add: test_world_def not_found_def reply_def)
  have "400 \<le> status_code ?r" and "status_code ?r \<le> 499" and "status_code ?r \<noteq> 429" by simp_all
  from client_error_is_not_retried [OF test_world_admits resp this, of 3 0 "[1..<nat 3]" "''/eapi/v1/chore''"]
  show ?thesis by (auto simp: test_world_def)
qed

subsection \<open>Rate-limited responses\<close>

text \<open>
  C3 as stated fails: a 429 whose \<^verbatim>\<open>Retry-After\<close> header holds an HTTP date ends the
  request of the test client with \<^verbatim>\<open>ValueError\<close> after one call; the trace has no
  sleep of 60 seconds, and no second call is made.
\<close>

theorem retry_after_unparsable_counterexample:
  "fst (request ''GET'' ''/eapi/v1/chore'' 3 (test_world (TokenBucket 100 100 0) busy_until_date))
     = Raised ValueError
   \<and> trace (snd (request ''GET'' ''/eapi/v1/chore'' 3 (test_world (TokenBucket 100 100 0) busy_until_date)))
     = [Lock, Unlock, Call ''GET'' ''https://test.donetick.com/eapi/v1/chore'']"
proof -
  let ?w = "test_world (TokenBucket 100 100 0) busy_until_date"
  have "base_url ?w = ''https://test.donetick.com''" and "requests ?w = 0" and "server ?w = busy_until_date"
    by (simp_all add: test_world_def)
  then show ?thesis
    using attempt_step_admitted [OF test_world_admits transport_after_acquire [OF test_world_admits],
        of "''GET''" "''https://test.donetick.com/eapi/v1/chore''" 3 0]
    by (simp add: request_first_attempt busy_until_date_def reply_def py_float_date)
qed

text \<open>
  C3, amended. For a response with status 429, the request reads the
  \<^verbatim>\<open>Retry-After\<close> header with \<^verbatim>\<open>float\<close>, taking 60 when the header is absent. When
  the value is a finite number, it sleeps for that many seconds, draws no random number
  (no exponential backoff), and goes on with the attempts that are left, so the retry
  has used up one attempt of the loop. When the header is present and \<^verbatim>\<open>float\<close>
  rejects its value, nothing is defaulted: the \<^verbatim>\<open>ValueError\<close> ends the request,
  without a sleep and without another call. The values that \<^verbatim>\<open>float\<close> accepts
  without their being finite are passed to the sleep as they are: plus infinity suspends
  the request for ever, minus infinity lets it go on at once, and for NaN the
  interpreter's \<^verbatim>\<open>asyncio.sleep\<close> decides.
\<close>

theorem rate_limited_waits_retry_after:
  assumes adm: "acquire 1 w = Some (Inr (), w1)"
    and resp: "server w (requests w) m url = Responded r"
    and s: "status_code r = 429"
    and w2: "w2 = snd (transport m url w1)"
  shows "(headers r ''Retry-After'' = None \<longrightarrow>
            request_loop m url N (a # rest) w = request_loop m url N rest (sleep 60 w2))
       \<and> (\<forall>v t. headers r ''Retry-After'' = Some v \<and> py_float v = Some (Finite t) \<longrightarrow>
            request_loop m url N (a # rest) w = request_loop m url N rest (sleep t w2))
       \<and> (\<forall>v. headers r ''Retry-After'' = Some v \<and> py_float v = None \<longrightarrow>
            request_loop m url N (a # rest) w = (Raised ValueError, w2))
       \<and> (\<forall>v. headers r ''Retry-After'' = Some v \<and> py_float v = Some PosInf \<longrightarrow>
            request_loop m url N (a # rest) w = (Hang, w2))
       \<and> (\<forall>v. headers r ''Retry-After'' = Some v \<and> py_float v = Some NegInf \<longrightarrow>
            request_loop m url N (a # rest) w = request_loop m url N rest (emit Yield w2))
       \<and> (\<forall>v. headers r ''Retry-After'' = Some v \<and> py_float v = Some NaN \<longrightarrow>
            request_loop m url N (a # rest) w =
              (case sleep_nan w2 of
                 Returns \<Rightarrow> request_loop m url N rest w2
               | Never \<Rightarrow> (Hang, w2)
               | Refused \<Rightarrow> (Raised ValueError, w2)))
       \<and> requests w2 = Suc (requests w) \<and> draws w2 = draws w
       \<and> trace w2 = trace w1 @ [Call m url]
       \<and> (\<forall>t. draws (sleep t w2) = draws w \<and> trace (sleep t w2) = trace w1 @ [Call m url, Sleep t]
              \<and> clock (sleep t w2) = clock w1 + max 0 t)"
proof -
  note st = attempt_step_admitted [OF adm transport_after_acquire [OF adm], of m url N a]
  from acquire_frame [OF adm] have fr: "requests w1 = requests w" "draws w1 = draws w" by simp_all
  have absent: "request_loop m url N (a # rest) w = request_loop m url N rest (sleep 60 w2)"
    if "headers r ''Retry-After'' = None"
    using that st resp s by (simp add: w2 py_float_60 asyncio_sleep_def)
  have number: "request_loop m url N (a # rest) w = request_loop m url N rest (sleep t w2)"
    if "headers r ''Retry-After'' = Some v \<and> py_float v = Some (Finite t)" for v t
    using that st resp s by (simp add: w2 asyncio_sleep_def)
  have other: "request_loop m url N (a # rest) w = (Raised ValueError, w2)"
    if "headers r ''Retry-After'' = Some v \<and> py_float v = None" for v
    using that st resp s by (simp add: w2)
  have pos: "request_loop m url N (a # rest) w = (Hang, w2)"
    if "headers r ''Retry-After'' = Some v \<and> py_float v = Some PosInf" for v
    using that st resp s by (simp add: w2 asyncio_sleep_def)
  have neg: "request_loop m url N (a # rest) w = request_loop m url N rest (emit Yield w2)"
    if "headers r ''Retry-After'' = Some v \<and> py_float v = Some NegInf" for v
    using that st resp s by (simp add: w2 asyncio_sleep_def)
  have nan: "request_loop m url N (a # rest) w =
              (case sleep_nan w2 of
                 Returns \<Rightarrow> request_loop m url N rest w2
               | Never \<Rightarrow> (Hang, w2)
               | Refused \<Rightarrow> (Raised ValueError, w2))"
    if "headers r ''Retry-After'' = Some v \<and> py_float v = Some NaN" for v
    using that st resp s by (simp add: w2 asyncio_sleep_def split: nan_delay.splits)
  have "requests w2 = Suc (requests w)" and "draws w2 = draws w" and "trace w2 = trace w1 @ [Call m url]"
    and "\<forall>t. draws (sleep t w2) = draws w \<and> trace (sleep t w2) = trace w1 @ [Call m url, Sleep t]
              \<and> clock (sleep t w2) = clock w1 + max 0 t"
    using fr by (simp_all add: w2)
  with absent number other pos neg nan show ?thesis by blast
qed

theorem rate_limited_waits_retry_after_witness:
  "request_loop ''GET'' ''https://test.donetick.com/eapi/v1/chore'' 3 [0, 1, 2]
       (test_world (TokenBucket 100 100 0) always_busy)
     = request_loop ''GET'' ''https://test.donetick.com/eapi/v1/chore'' 3 [1, 2]
         (sleep (1 / 10) (snd (transport ''GET'' ''https://test.donetick.com/eapi/v1/chore''
            ((test_world (TokenBucket 100 100 0) always_busy)
               \<lparr>rate_limiter := \<lparr>rate = 100, capacity = 100, tokens = 99, last_update = 0\<rparr>,
                trace := [Lock, Unlock]\<rparr>))))"
proof -
  let ?w = "test_world (TokenBucket 100 100 0) always_busy"
  let ?r = "\<lparr>status_code = 429, headers = [''Retry-After'' \<mapsto> ''0.1''], body_text = [],
             body_json = None\<rparr>"
  have resp: "server ?w (requests ?w) ''GET'' ''https://test.donetick.com/eapi/v1/chore'' = Responded ?r"
    by (simp add: test_world_def always_busy_def reply_def)
  have s: "status_code ?r = 429" by simp
  have h: "headers ?r ''Retry-After'' = Some ''0.1'' \<and> py_float ''0.1'' = Some (Finite (1 / 10))"
    by (simp add: py_float_eval)
  from rate_limited_waits_retry_after [OF test_world_admits resp s refl, of 3 0 "[1, 2]"] h
  show ?thesis by simp
qed

subsection \<open>The backoff\<close>

text \<open>
  C7 as stated fails: attempt 1024 of a request with \<open>max_retries = 1026\<close> is not the
  last one, and when it times out the test client sleeps for no time at all: the
  computation of the delay raises \<^verbatim>\<open>OverflowError\<close>, which ends the request. The
  trace of the attempt ends with its transport call, and so does the trace of the whole
  request, whose attempt 1024 is the 1025th.
\<close>

theorem backoff_overflow_counterexample:
  "fst (attempt_step ''GET'' ''https://test.donetick.com/eapi/v1/chore'' 1026 1024
          (test_world (TokenBucket 100 100 0) never_answers)) = Some (Raised OverflowError)
   \<and> trace (snd (attempt_step ''GET'' ''https://test.donetick.com/eapi/v1/chore'' 1026 1024
                    (test_world (TokenBucket 100 100 0) never_answers)))
       = [Lock, Unlock, Call ''GET'' ''https://test.donetick.com/eapi/v1/chore'']
   \<and> last (trace (snd (request ''GET'' ''/eapi/v1/chore'' 1026
                          (test_world (TokenBucket 100 100 0) never_answers))))
       = Call ''GET'' ''https://test.donetick.com/eapi/v1/chore''"
proof -
  let ?w = "test_world (TokenBucket 100 100 0) never_answers"
  have "requests ?w = 0" and "server ?w = never_answers" by (simp_all add: test_world_def)
  then have one: "fst (attempt_step ''GET'' ''https://test.donetick.com/eapi/v1/chore'' 1026 1024 ?w)
        = Some (Raised OverflowError)
      \<and> trace (snd (attempt_step ''GET'' ''https://test.donetick.com/eapi/v1/chore'' 1026 1024 ?w))
        = [Lock, Unlock, Call ''GET'' ''https://test.donetick.com/eapi/v1/chore'']"
    using attempt_step_admitted [OF test_world_admits transport_after_acquire [OF test_world_admits],
        of "''GET''" "''https://test.donetick.com/eapi/v1/chore''" 1026 1024]
    by (simp add: never_answers_def backoff_big)
  have "admits (rate_limiter ?w)" by (simp add: test_world_def TokenBucket_def admits_def)
  moreover have "\<forall>k. retryable (server ?w k ''GET'' (base_url ?w @ ''/eapi/v1/chore''))"
    by (simp add: test_world_def retryable_def never_answers_def)
  moreover have "(0::nat) \<le> 1024" and "1025 < nat 1026" by simp_all
  ultimately obtain w' where "request_loop ''GET'' (base_url ?w @ ''/eapi/v1/chore'') 1026 [0..<nat 1026] ?w
      = (Raised OverflowError, w')" and "last (trace w') = Call ''GET'' (base_url ?w @ ''/eapi/v1/chore'')"
    using request_loop_overflow [of ?w "''GET''" "base_url ?w @ ''/eapi/v1/chore''" 0 1026] by blast
  moreover have "base_url ?w = ''https://test.donetick.com''" by (simp add: test_world_def)
  ultimately have "last (trace (snd (request ''GET'' ''/eapi/v1/chore'' 1026 ?w)))
      = Call ''GET'' ''https://test.donetick.com/eapi/v1/chore''"
    by (simp add: request_def)
  with one show ?thesis by blast
qed

text \<open>
  C7, amended. When an attempt that is not the last one ends in a timeout or in a
  response with a status from 500 to 599, and the index of the attempt is below 1024, the
  request sleeps for \<open>d + j\<close> seconds before the next attempt, where
  \<open>d = min (1 * 2 ^ attempt) 60\<close> and the jitter \<open>j\<close> is \<open>d\<close> times a number drawn between
  \<open>- 0.25\<close> and \<open>0.25\<close>: so \<open>\<bar>j\<bar> \<le> 0.25 * d\<close> and the sleep lies between \<open>0.75 * d\<close> and
  \<open>1.25 * d\<close>. The value drawn from \<^verbatim>\<open>random.random()\<close> is taken in the unit
  interval. From index 1024 on there is no sleep: the request ends with the
  \<^verbatim>\<open>OverflowError\<close> of the delay's computation.
\<close>

theorem backoff_wait_within_quarter:
  assumes adm: "acquire 1 w = Some (Inr (), w1)"
    and out: "retryable (server w (requests w) m url)"
    and more: "int a \<noteq> N - 1"
    and u0: "0 \<le> rnd w (draws w)" and u1: "rnd w (draws w) \<le> 1"
    and d: "d = min (1 * 2 ^ a) 60"
    and j: "j = d * (- 0.25 + (0.25 - (- 0.25)) * rnd w (draws w))"
  shows "(a < 1024 \<longrightarrow>
            (\<exists>w'. attempt_step m url N a w = (None, w')
               \<and> trace w' = trace w1 @ [Call m url, Sleep (d + j)]
               \<and> clock w' = clock w1 + (d + j)))
       \<and> \<bar>j\<bar> \<le> 0.25 * d \<and> 0.75 * d \<le> d + j \<and> d + j \<le> 1.25 * d
       \<and> (1024 \<le> a \<longrightarrow>
            attempt_step m url N a w = (Some (Raised OverflowError), snd (transport m url w1)))"
proof -
  have dpos: "0 < d" by (simp add: d)
  have lo: "- 0.25 * d \<le> j"
  proof -
    have "d * (- 0.25) \<le> d * (- 0.25 + 0.5 * rnd w (draws w))"
      using dpos u0 by (intro mult_left_mono) simp_all
    then show ?thesis by (simp add: j)
  qed
  have hi: "j \<le> 0.25 * d"
  proof -
    have "d * (- 0.25 + 0.5 * rnd w (draws w)) \<le> d * 0.25"
      using dpos u1 by (intro mult_left_mono) simp_all
    then show ?thesis by (simp add: j)
  qed
  from lo hi have bounds: "\<bar>j\<bar> \<le> 0.25 * d" "0.75 * d \<le> d + j" "d + j \<le> 1.25 * d" by simp_all
  from acquire_frame [OF adm] have fr: "rnd w1 = rnd w" "draws w1 = draws w" by simp_all
  let ?w2 = "snd (transport m url w1)"
  have step: "attempt_step m url N a w = backoff a ?w2"
  proof (cases "server w (requests w) m url")
    case TimedOut
    then show ?thesis
      using attempt_step_admitted [OF adm transport_after_acquire [OF adm], of m url N a] more by simp
  next
    case Broken
    with out show ?thesis by (simp add: retryable_def)
  next
    case (Responded r)
    with out have "500 \<le> status_code r" "status_code r \<le> 599" by (simp_all add: retryable_def)
    then have "status_code r \<noteq> 429" "\<not> is_success (status_code r)" "\<not> status_code r < 500"
      by (simp_all add: is_success_def)
    with Responded show ?thesis
      using attempt_step_admitted [OF adm transport_after_acquire [OF adm], of m url N a] more by simp
  qed
  have small: "\<exists>w'. attempt_step m url N a w = (None, w')
               \<and> trace w' = trace w1 @ [Call m url, Sleep (d + j)]
               \<and> clock w' = clock w1 + (d + j)"
    if "a < 1024"
  proof -
    have "backoff a ?w2 = (None, sleep (d + j) (?w2\<lparr>draws := Suc (draws w)\<rparr>))"
      using fr that by (simp add: backoff_small d j)
    moreover have "0 \<le> d + j" using bounds dpos by simp
    ultimately show ?thesis using step by (simp add: max_def)
  qed
  have big: "attempt_step m url N a w = (Some (Raised OverflowError), ?w2)" if "1024 \<le> a"
    using that step by (simp add: backoff_big)
  from small bounds big show ?thesis by blast
qed

theorem backoff_wait_within_quarter_witness:
  "\<exists>w'. attempt_step ''GET'' ''https://test.donetick.com/eapi/v1/chore'' 3 1
           (test_world (TokenBucket 100 100 0) never_answers) = (None, w')
       \<and> trace w' = [Lock, Unlock, Call ''GET'' ''https://test.donetick.com/eapi/v1/chore'',
                      Sleep (9 / 4)]
       \<and> clock w' = 9 / 4"
proof -
  let ?w = "test_world (TokenBucket 100 100 0) never_answers"
  have out: "retryable (server ?w (requests ?w) ''GET'' ''https://test.donetick.com/eapi/v1/chore'')"
    by (simp add: test_world_def never_answers_def retryable_def)
  have more: "int 1 \<noteq> 3 - 1" by simp
  have u: "0 \<le> rnd ?w (draws ?w)" "rnd ?w (draws ?w) \<le> 1" by (simp_all add: test_world_def)
  from backoff_wait_within_quarter [OF test_world_admits out more u refl refl]
  show ?thesis by (simp add: test_world_def)
qed

subsection \<open>Exhausted retries\<close>

lemma attempt_step_told_to_wait:
  assumes adm: "admits (rate_limiter w)" and out: "told_to_wait (server w (requests w) m url)"
  shows "\<exists>w'. attempt_step m url N a w = (None, w')
          \<and> requests w' = Suc (requests w) \<and> draws w' = draws w \<and> same_setup w w'"
proof -
  from admits_acquire [OF adm] obtain w1 where a1: "acquire 1 w = Some (Inr (), w1)" by blast
  from acquire_frame [OF a1] have fr: "requests w1 = requests w" "draws w1 = draws w" by simp_all
  have ss: "same_setup w (sleep t (snd (transport m url w1)))" for t
    using same_setup_trans [OF acquire_same_setup [OF a1] transport_same_setup] sleep_same_setup
    by (rule same_setup_trans)
  from out obtain r where resp: "server w (requests w) m url = Responded r"
    and s: "status_code r = 429"
    and h: "case headers r ''Retry-After'' of
              None \<Rightarrow> True
            | Some v \<Rightarrow> (case py_float v of Some (Finite t) \<Rightarrow> True | _ \<Rightarrow> False)"
    by (auto simp: told_to_wait_def split: outcome.splits)
  from h obtain t
    where "py_float (case headers r ''Retry-After'' of None \<Rightarrow> ''60'' | Some v \<Rightarrow> v) = Some (Finite t)"
    by (auto simp: py_float_60 split: option.splits pyfloat.splits)
  then have "attempt_step m url N a w = (None, sleep t (snd (transport m url w1)))"
    using attempt_step_admitted [OF a1 transport_after_acquire [OF a1], of m url N a] resp s
    by (simp add: asyncio_sleep_def)
  with fr ss show ?thesis by simp
qed

lemma request_loop_told_to_wait:
  assumes "admits (rate_limiter w)" and "\<forall>k. told_to_wait (server w k m url)"
  shows "\<exists>w'. request_loop m url N as w = (Raised (Failed N), w')
          \<and> requests w' = requests w + length as \<and> draws w' = draws w"
  using assms
proof (induction as arbitrary: w)
  case Nil
  then show ?case by simp
next
  case (Cons a as)
  from Cons.prems have "told_to_wait (server w (requests w) m url)" by simp
  from attempt_step_told_to_wait [OF Cons.prems(1) this, of N a] obtain w1
    where st: "attempt_step m url N a w = (None, w1)" and req: "requests w1 = Suc (requests w)"
      and dr: "draws w1 = draws w" and ss: "same_setup w w1" by blast
  have "admits (rate_limiter w1)" using ss Cons.prems(1) by (rule same_setup_admits)
  moreover have "\<forall>k. told_to_wait (server w1 k m url)"
    using Cons.prems(2) ss by (simp add: same_setup_def)
  ultimately obtain w' where "request_loop m url N as w1 = (Raised (Failed N), w')"
    and "requests w' = requests w1 + length as" and "draws w' = draws w1"
    using Cons.IH by blast
  with st req dr show ?case by simp
qed

text \<open>The bucket raises nothing but the division by a zero rate.\<close>

lemma acquire_loop_error:
  assumes ret: "acquire_loop n w = Some r"
  shows "\<forall>e. fst r = Inl e \<longrightarrow> e = ZeroDivisionError"
proof (rule acquire_loop.raw_induct
    [where P = "\<lambda>n w r. \<forall>e. fst r = Inl e \<longrightarrow> e = ZeroDivisionError", OF _ ret])
  fix f n w r
  assume IH: "\<And>n w r. f n w = Some r \<Longrightarrow> \<forall>e. fst r = Inl e \<longrightarrow> e = ZeroDivisionError"
    and eq: "(if real_of_int n \<le> tokens (refill (clock w) (rate_limiter w))
      then Some (Inr (), w\<lparr>rate_limiter := take_tokens n (refill (clock w) (rate_limiter w))\<rparr>)
      else if rate (rate_limiter w) = 0
      then Some (Inl ZeroDivisionError, w\<lparr>rate_limiter := refill (clock w) (rate_limiter w)\<rparr>)
      else f n
             (sleep ((real_of_int n - tokens (refill (clock w) (rate_limiter w))) / rate (rate_limiter w))
                (w\<lparr>rate_limiter := refill (clock w) (rate_limiter w)\<rparr>))) = Some r"
  show "\<forall>e. fst r = Inl e \<longrightarrow> e = ZeroDivisionError"
  proof (cases "real_of_int n \<le> tokens (refill (clock w) (rate_limiter w)) \<or> rate (rate_limiter w) = 0")
    case True
    with eq show ?thesis by (auto split: if_splits)
  next
    case False
    with eq have "f n (sleep ((real_of_int n - tokens (refill (clock w) (rate_limiter w))) / rate (rate_limiter w))
                (w\<lparr>rate_limiter := refill (clock w) (rate_limiter w)\<rparr>)) = Some r"
      by simp
    then show ?thesis by (rule IH)
  qed
qed

lemma acquire_error: "acquire n w = Some (Inl e, w') \<Longrightarrow> e = ZeroDivisionError"
  using acquire_loop_error [of n "emit Lock w"]
  by (auto simp: acquire_def split: option.splits)

text \<open>No attempt ends the request with the exhaustion error.\<close>

lemma backoff_not_failed [simp]: "fst (backoff a w) \<noteq> Some (Raised (Failed n))"
  by (simp add: backoff_result)

lemma asyncio_sleep_not_failed [simp]: "fst (asyncio_sleep x w) \<noteq> Some (Raised (Failed n))"
  using asyncio_sleep_result [of x w] by auto

lemma attempt_step_not_failed: "fst (attempt_step m url N a w) \<noteq> Some (Raised (Failed n))"
proof (cases "acquire 1 w")
  case None
  then show ?thesis by (simp add: attempt_step_def)
next
  case (Some rw)
  obtain r w1 where rw: "rw = (r, w1)" by (cases rw)
  show ?thesis
  proof (cases r)
    case (Inl e)
    with Some rw acquire_error [of 1 w e w1] show ?thesis by (simp add: attempt_step_def)
  next
    case (Inr u)
    with Some rw have adm: "acquire 1 w = Some (Inr (), w1)" by simp
    show ?thesis
      by (simp add: attempt_step_admitted [OF adm transport_after_acquire [OF adm]]
          split: outcome.splits option.splits)
  qed
qed

lemma completes_iff:
  "completes m url N as w \<longleftrightarrow> fst (request_loop m url N as w) = Raised (Failed N)"
proof (induction as arbitrary: w)
  case Nil
  then show ?case by simp
next
  case (Cons a as)
  obtain r w1 where st: "attempt_step m url N a w = (r, w1)" by (cases "attempt_step m url N a w")
  show ?case
  proof (cases r)
    case None
    with st Cons.IH [of w1] show ?thesis by simp
  next
    case (Some res)
    with st attempt_step_not_failed [of m url N a w N] show ?thesis by auto
  qed
qed

text \<open>
  C9 as stated fails: the first 429 of the test client's request, its
  \<^verbatim>\<open>Retry-After\<close> header holding an HTTP date, ends the request with
  \<^verbatim>\<open>ValueError\<close> after one of the three attempts.
\<close>

theorem rate_limited_terminal_error_counterexample:
  "fst (attempt_step ''GET'' ''https://test.donetick.com/eapi/v1/chore'' 3 0
          (test_world (TokenBucket 100 100 0) busy_until_date)) = Some (Raised ValueError)
   \<and> fst (request ''GET'' ''/eapi/v1/chore'' 3 (test_world (TokenBucket 100 100 0) busy_until_date))
        \<noteq> Raised (Failed 3)
   \<and> requests (snd (request ''GET'' ''/eapi/v1/chore'' 3 (test_world (TokenBucket 100 100 0) busy_until_date)))
        = 1"
proof -
  let ?w = "test_world (TokenBucket 100 100 0) busy_until_date"
  have "base_url ?w = ''https://test.donetick.com''" and "requests ?w = 0" and "server ?w = busy_until_date"
    by (simp_all add: test_world_def)
  then show ?thesis
    using attempt_step_admitted [OF test_world_admits transport_after_acquire [OF test_world_admits],
        of "''GET''" "''https://test.donetick.com/eapi/v1/chore''" 3 0]
    by (simp add: request_first_attempt busy_until_date_def reply_def py_float_date)
qed

text \<open>
  C9, amended. A request fails with the exhaustion error \<open>Failed N\<close> exactly when its
  loop completes: when every one of the \<open>N\<close> attempts, run in the world the one before
  it left, goes on to the next instead of returning or raising. When the bucket admits
  the caller and every transport call is answered by a 429 whose \<^verbatim>\<open>Retry-After\<close>
  header is absent or holds a finite number, the loop completes: no attempt that
  receives such a 429 ends the request, which makes \<open>N\<close> calls (none when \<open>N\<close> is not
  positive), draws no random number, and fails with \<open>Failed N\<close>.
\<close>

theorem rate_limited_until_exhausted:
  assumes adm: "admits (rate_limiter w)"
    and busy: "\<forall>k. told_to_wait (server w k m (base_url w @ path))"
  shows "(\<exists>w'. request m path N w = (Raised (Failed N), w')
            \<and> requests w' = requests w + nat N \<and> draws w' = draws w)
       \<and> completes m (base_url w @ path) N [0..<nat N] w
       \<and> (\<forall>a v url. admits (rate_limiter v) \<and> told_to_wait (server v (requests v) m url) \<longrightarrow>
              fst (attempt_step m url N a v) = None)
       \<and> (\<forall>v p. completes m (base_url v @ p) N [0..<nat N] v
                \<longleftrightarrow> fst (request m p N v) = Raised (Failed N))"
proof -
  from request_loop_told_to_wait [OF adm busy, of N "[0..<nat N]"]
  have a: "\<exists>w'. request m path N w = (Raised (Failed N), w')
            \<and> requests w' = requests w + nat N \<and> draws w' = draws w"
    by (simp add: request_def)
  have d: "completes m (base_url v @ p) N [0..<nat N] v
                \<longleftrightarrow> fst (request m p N v) = Raised (Failed N)" for v p
    by (simp add: completes_iff request_def)
  from a d have b: "completes m (base_url w @ path) N [0..<nat N] w" by auto
  have c: "fst (attempt_step m url N a v) = None"
    if "admits (rate_limiter v) \<and> told_to_wait (server v (requests v) m url)" for a v url
    using that attempt_step_told_to_wait [of v m url N a] by auto
  from a b c d show ?thesis by blast
qed

theorem rate_limited_until_exhausted_witness:
  "\<exists>w'. request ''GET'' ''/eapi/v1/chore'' 3 (test_world (TokenBucket 100 100 0) always_busy)
           = (Raised (Failed 3), w')
       \<and> requests w' = 3 \<and> draws w' = 0"
proof -
  let ?w = "test_world (TokenBucket 100 100 0) always_busy"
  have adm: "admits (rate_limiter ?w)" by (simp add: test_world_def TokenBucket_def admits_def)
  have "py_float ''0.1'' = Some (Finite (1 / 10))" by (simp add: py_float_eval)
  then have busy: "\<forall>k. told_to_wait (server ?w k ''GET'' (base_url ?w @ ''/eapi/v1/chore''))"
    by (simp add: test_world_def always_busy_def reply_def told_to_wait_def)
  from rate_limited_until_exhausted [OF adm busy, of 3] show ?thesis
    by (simp add: test_world_def)
qed

subsection \<open>Reading one chore\<close>

text \<open>
  What an attempt adds to the trace and to the call counter: its transport calls are
  calls of its own method and URL, and an attempt that returns a value has made one.
\<close>

lemma backoff_tail: "\<exists>tl. trace (snd (backoff a w)) = trace w @ tl \<and> only_calls m url tl"
proof -
  from backoff_trace [of a w] show ?thesis
  proof (elim disjE exE)
    assume "trace (snd (backoff a w)) = trace w"
    then show ?thesis by (intro exI [of _ "[]"]) simp
  next
    fix d
    assume "trace (snd (backoff a w)) = trace w @ [Sleep d]"
    then show ?thesis by (intro exI [of _ "[Sleep d]"]) simp
  qed
qed

lemma asyncio_sleep_tail:
  "\<exists>tl. trace (snd (asyncio_sleep x w)) = trace w @ tl \<and> only_calls m url tl"
proof -
  from asyncio_sleep_trace [of x w] show ?thesis
  proof (elim disjE exE)
    assume "trace (snd (asyncio_sleep x w)) = trace w"
    then show ?thesis by (intro exI [of _ "[]"]) simp
  next
    fix d
    assume "trace (snd (asyncio_sleep x w)) = trace w @ [Sleep d]"
    then show ?thesis by (intro exI [of _ "[Sleep d]"]) simp
  next
    assume "trace (snd (asyncio_sleep x w)) = trace w @ [Yield]"
    then show ?thesis by (intro exI [of _ "[Yield]"]) simp
  qed
qed

lemma attempt_step_effect:
  "\<exists>es. trace (snd (attempt_step m url N a w)) = trace w @ es \<and> only_calls m url es
        \<and> requests w \<le> requests (snd (attempt_step m url N a w))
        \<and> (\<forall>j. fst (attempt_step m url N a w) = Some (Returned j) \<longrightarrow>
              Call m url \<in> set es \<and> requests w < requests (snd (attempt_step m url N a w)))"
proof (cases "acquire 1 w")
  case None
  then show ?thesis by (simp add: attempt_step_def)
next
  case (Some rw)
  obtain r w1 where rw: "rw = (r, w1)" by (cases rw)
  from acquire_trace [of 1 w r w1] Some rw obtain ds
    where t1: "trace w1 = trace w @ [Lock] @ map Sleep ds @ [Unlock]" by auto
  from acquire_frame [of 1 w r w1] Some rw have req: "requests w1 = requests w" by simp
  show ?thesis
  proof (cases r)
    case (Inl e)
    with Some rw t1 req show ?thesis by (simp add: attempt_step_def)
  next
    case (Inr u)
    with Some rw have adm: "acquire 1 w = Some (Inr (), w1)" by simp
    let ?w2 = "snd (transport m url w1)"
    let ?w' = "snd (attempt_step m url N a w)"
    from attempt_step_world [OF adm, of m url N a]
    have "\<exists>tl. trace ?w' = trace ?w2 @ tl \<and> only_calls m url tl \<and> requests ?w' = requests ?w2"
    proof (elim disjE exE)
      assume "?w' = ?w2"
      then show ?thesis by (intro exI [of _ "[]"]) simp
    next
      assume "?w' = snd (backoff a ?w2)"
      with backoff_tail [of a ?w2 m url] show ?thesis by auto
    next
      fix x
      assume "?w' = snd (asyncio_sleep x ?w2)"
      with asyncio_sleep_tail [of x ?w2 m url] show ?thesis by auto
    qed
    then obtain tl where tl: "trace ?w' = trace ?w2 @ tl" "only_calls m url tl"
      and r2: "requests ?w' = requests ?w2" by blast
    have "trace ?w' = trace w @ ([Lock] @ map Sleep ds @ [Unlock] @ [Call m url] @ tl)"
      using tl t1 by simp
    moreover have "only_calls m url ([Lock] @ map Sleep ds @ [Unlock] @ [Call m url] @ tl)"
      using tl by simp
    moreover have "Call m url \<in> set ([Lock] @ map Sleep ds @ [Unlock] @ [Call m url] @ tl)" by simp
    moreover have "requests w < requests ?w'" using r2 req by simp
    ultimately show ?thesis by (intro exI [of _ "[Lock] @ map Sleep ds @ [Unlock] @ [Call m url] @ tl"]) simp
  qed
qed

lemma request_loop_effect:
  "\<exists>es. trace (snd (request_loop m url N as w)) = trace w @ es \<and> only_calls m url es
        \<and> requests w \<le> requests (snd (request_loop m url N as w))
        \<and> (\<forall>j. fst (request_loop m url N as w) = Returned j \<longrightarrow>
              Call m url \<in> set es \<and> requests w < requests (snd (request_loop m url N as w)))"
proof (induction as arbitrary: w)
  case Nil
  then show ?case by simp
next
  case (Cons a as)
  obtain r w1 where st: "attempt_step m url N a w = (r, w1)" by (cases "attempt_step m url N a w")
  from attempt_step_effect [of m url N a w] st obtain es
    where one: "trace w1 = trace w @ es" "only_calls m url es" "requests w \<le> requests w1"
      and ret: "\<forall>j. r = Some (Returned j) \<longrightarrow> Call m url \<in> set es \<and> requests w < requests w1"
    by auto
  show ?case
  proof (cases r)
    case None
    from Cons.IH [of w1] obtain es'
      where "trace (snd (request_loop m url N as w1)) = trace w1 @ es'"
        and "only_calls m url es'" and "requests w1 \<le> requests (snd (request_loop m url N as w1))"
        and "\<forall>j. fst (request_loop m url N as w1) = Returned j \<longrightarrow>
              Call m url \<in> set es' \<and> requests w1 < requests (snd (request_loop m url N as w1))"
      by blast
    with one None st show ?thesis by (intro exI [of _ "es @ es'"]) auto
  next
    case (Some res)
    with st one ret show ?thesis by (intro exI [of _ es]) auto
  qed
qed

lemma get_chore_world:
  "snd (get_chore cv chore_id w) = snd (request ''GET'' ''/eapi/v1/chore'' 3 w)"
  by (simp add: get_chore_def list_chores_def split: prod.splits result.splits sum.splits)

lemma get_chore_returned:
  "fst (get_chore cv chore_id w) = Returned x \<Longrightarrow>
   \<exists>j. fst (request ''GET'' ''/eapi/v1/chore'' 3 w) = Returned j"
  by (auto simp: get_chore_def list_chores_def split: prod.splits result.splits sum.splits)

lemma find_id_field:
  "(\<exists>c \<in> set chores. id_field c = chore_id) \<Longrightarrow>
   \<exists>c \<in> set chores. id_field c = chore_id \<and> find (\<lambda>chore. id_field chore = chore_id) chores = Some c"
  by (induction chores) auto

lemma test_world_lists:
  assumes "srv 0 ''GET'' ''https://test.donetick.com/eapi/v1/chore'' = reply 200 (\<lambda>h. None) (Some j)"
  shows "request ''GET'' ''/eapi/v1/chore'' 3 (test_world (TokenBucket 100 100 0) srv)
      = (Returned j,
         snd (transport ''GET'' ''https://test.donetick.com/eapi/v1/chore''
            ((test_world (TokenBucket 100 100 0) srv)
               \<lparr>rate_limiter := \<lparr>rate = 100, capacity = 100, tokens = 99, last_update = 0\<rparr>,
                trace := [Lock, Unlock]\<rparr>)))"
proof -
  let ?w = "test_world (TokenBucket 100 100 0) srv"
  have "base_url ?w = ''https://test.donetick.com''" and "requests ?w = 0" and "server ?w = srv"
    by (simp_all add: test_world_def)
  then show ?thesis
    using attempt_step_admitted [OF test_world_admits transport_after_acquire [OF test_world_admits],
        of "''GET''" "''https://test.donetick.com/eapi/v1/chore''" 3 0] assms
    by (simp add: request_first_attempt reply_def is_success_def)
qed

text \<open>
  C10 as stated fails: the test client's server lists one object that has an id, 1, and
  no other field. No chore of that list has the id 999, and yet \<open>get_chore\<close> does not
  return \<open>None\<close>: the object lacks the required fields of a \<^verbatim>\<open>Chore\<close>, and the
  validation error of \<^verbatim>\<open>list_chores\<close> is raised.
\<close>

theorem get_chore_invalid_list_counterexample:
  "fst (get_chore exact 999 (test_world (TokenBucket 100 100 0) bare_chore))
     = Raised ValidationError"
proof -
  have "bare_chore 0 ''GET'' ''https://test.donetick.com/eapi/v1/chore''
      = reply 200 (\<lambda>h. None) (Some (JArr [JObj [(''id'', JInt 1)]]))"
    by (simp add: bare_chore_def)
  from test_world_lists [of bare_chore, OF this] show ?thesis
    by (simp add: get_chore_def list_chores_def required_def exact_def)
qed

text \<open>
  C10, amended. \<open>get_chore\<close> makes one logical request, \<^verbatim>\<open>GET /eapi/v1/chore\<close> with
  the default three attempts: it leaves the world as that request leaves it, it makes at
  most three transport calls, every transport call it makes is a \<^verbatim>\<open>GET\<close> of the list
  URL (so no URL with a chore id in it is called), and whenever it returns a value it has
  made such a call. When the request returns an array whose elements all validate as
  chores, \<open>get_chore\<close> returns the first chore of the list whose id is \<open>chore_id\<close> if
  there is one, and returns \<open>None\<close>, raising nothing, if no chore of the list has that
  id. When an element of the array does not validate, \<open>get_chore\<close> raises the error of
  that element, whatever the ids in the list are.
\<close>

theorem get_chore_searches_the_list:
  "snd (get_chore cv chore_id w) = snd (request ''GET'' ''/eapi/v1/chore'' 3 w)
   \<and> requests (snd (get_chore cv chore_id w)) \<le> requests w + 3
   \<and> (\<exists>es. trace (snd (get_chore cv chore_id w)) = trace w @ es
         \<and> only_calls ''GET'' (base_url w @ ''/eapi/v1/chore'') es
         \<and> (\<forall>x. fst (get_chore cv chore_id w) = Returned x \<longrightarrow>
               Call ''GET'' (base_url w @ ''/eapi/v1/chore'') \<in> set es
               \<and> requests w < requests (snd (get_chore cv chore_id w))))
   \<and> (\<forall>ds chores w'.
         request ''GET'' ''/eapi/v1/chore'' 3 w = (Returned (JArr ds), w')
         \<and> chores_of cv ds = Inr chores \<longrightarrow>
           get_chore cv chore_id w
             = (Returned (find (\<lambda>chore. id_field chore = chore_id) chores), w')
           \<and> ((\<exists>c \<in> set chores. id_field c = chore_id) \<longrightarrow>
                (\<exists>c \<in> set chores. id_field c = chore_id
                    \<and> fst (get_chore cv chore_id w) = Returned (Some c)))
           \<and> ((\<forall>c \<in> set chores. id_field c \<noteq> chore_id) \<longrightarrow>
                fst (get_chore cv chore_id w) = Returned None))
   \<and> (\<forall>ds e w'.
         request ''GET'' ''/eapi/v1/chore'' 3 w = (Returned (JArr ds), w')
         \<and> chores_of cv ds = Inl e \<longrightarrow>
           get_chore cv chore_id w = (Raised e, w'))"
proof -
  have ceiling: "requests (snd (get_chore cv chore_id w)) \<le> requests w + 3"
    using request_loop_calls [of "''GET''" "base_url w @ ''/eapi/v1/chore''" 3 "[0..<nat 3]" w]
    by (simp add: get_chore_world request_def)
  from request_loop_effect [of "''GET''" "base_url w @ ''/eapi/v1/chore''" 3 "[0..<nat 3]" w]
  obtain es where es: "trace (snd (request ''GET'' ''/eapi/v1/chore'' 3 w)) = trace w @ es"
    "only_calls ''GET'' (base_url w @ ''/eapi/v1/chore'') es"
    and made: "\<forall>j. fst (request ''GET'' ''/eapi/v1/chore'' 3 w) = Returned j \<longrightarrow>
        Call ''GET'' (base_url w @ ''/eapi/v1/chore'') \<in> set es
        \<and> requests w < requests (snd (request ''GET'' ''/eapi/v1/chore'' 3 w))"
    by (auto simp: request_def)
  have tr: "\<exists>es. trace (snd (get_chore cv chore_id w)) = trace w @ es
         \<and> only_calls ''GET'' (base_url w @ ''/eapi/v1/chore'') es
         \<and> (\<forall>x. fst (get_chore cv chore_id w) = Returned x \<longrightarrow>
               Call ''GET'' (base_url w @ ''/eapi/v1/chore'') \<in> set es
               \<and> requests w < requests (snd (get_chore cv chore_id w)))"
    using es made get_chore_returned [of cv chore_id w]
    by (intro exI [of _ es]) (auto simp: get_chore_world)
  have found: "get_chore cv chore_id w
             = (Returned (find (\<lambda>chore. id_field chore = chore_id) chores), w')
           \<and> ((\<exists>c \<in> set chores. id_field c = chore_id) \<longrightarrow>
                (\<exists>c \<in> set chores. id_field c = chore_id
                    \<and> fst (get_chore cv chore_id w) = Returned (Some c)))
           \<and> ((\<forall>c \<in> set chores. id_field c \<noteq> chore_id) \<longrightarrow>
                fst (get_chore cv chore_id w) = Returned None)"
    if h: "request ''GET'' ''/eapi/v1/chore'' 3 w = (Returned (JArr ds), w')
         \<and> chores_of cv ds = Inr chores" for ds chores w'
  proof -
    from h have g: "get_chore cv chore_id w
             = (Returned (find (\<lambda>chore. id_field chore = chore_id) chores), w')"
      by (simp add: get_chore_def list_chores_def)
    have "\<exists>c \<in> set chores. id_field c = chore_id \<and> fst (get_chore cv chore_id w) = Returned (Some c)"
      if "\<exists>c \<in> set chores. id_field c = chore_id"
      using find_id_field [OF that] g by auto
    moreover have "fst (get_chore cv chore_id w) = Returned None"
      if "\<forall>c \<in> set chores. id_field c \<noteq> chore_id"
    proof -
      from that have "find (\<lambda>chore. id_field chore = chore_id) chores = None"
        by (simp add: find_None_iff)
      with g show ?thesis by simp
    qed
    ultimately show ?thesis using g by blast
  qed
  have invalid: "get_chore cv chore_id w = (Raised e, w')"
    if "request ''GET'' ''/eapi/v1/chore'' 3 w = (Returned (JArr ds), w')
         \<and> chores_of cv ds = Inl e" for ds e w'
    using that by (simp add: get_chore_def list_chores_def)
  from get_chore_world ceiling tr found invalid show ?thesis by blast
qed

theorem get_chore_searches_the_list_witness:
  "fst (get_chore exact 1 (test_world (TokenBucket 100 100 0) one_chore))
     = Returned (Some \<lparr>id_field = 1, name = ''Test Chore'', isActive = True, assignedTo = 1\<rparr>)
   \<and> fst (get_chore exact 999 (test_world (TokenBucket 100 100 0) one_chore)) = Returned None
   \<and> trace (snd (get_chore exact 1 (test_world (TokenBucket 100 100 0) one_chore)))
       = [Lock, Unlock, Call ''GET'' ''https://test.donetick.com/eapi/v1/chore'']"
proof -
  let ?w = "test_world (TokenBucket 100 100 0) one_chore"
  let ?c = "\<lparr>id_field = 1, name = ''Test Chore'', isActive = True, assignedTo = 1\<rparr>"
  have "one_chore 0 ''GET'' ''https://test.donetick.com/eapi/v1/chore''
      = reply 200 (\<lambda>h. None) (Some (JArr [sample_chore_data]))"
    by (simp add: one_chore_def)
  note req = test_world_lists [of one_chore, OF this]
  have cs: "chores_of exact [sample_chore_data] = Inr [?c]"
    by (simp add: sample_chore_data_def exact_def required_def defaulted_def nullable_def
        list_of_def dict_any_def anything_def in_range_def Assignee_def Label_def
        NotificationMetadata_def other_fields_def)
  from get_chore_searches_the_list [of exact 1 ?w] req cs
  have "fst (get_chore exact 1 ?w) = Returned (Some ?c)"
    and "snd (get_chore exact 1 ?w) = snd (request ''GET'' ''/eapi/v1/chore'' 3 ?w)" by simp_all
  moreover from get_chore_searches_the_list [of exact 999 ?w] req cs
  have "fst (get_chore exact 999 ?w) = Returned None" by simp
  moreover have "trace (snd (request ''GET'' ''/eapi/v1/chore'' 3 ?w))
      = [Lock, Unlock, Call ''GET'' ''https://test.donetick.com/eapi/v1/chore'']"
    by (simp add: req)
  ultimately show ?thesis by simp
qed

end
